theory Spec2Isabelle
  imports Main "HOL-Library.Sublist"
begin

section \<open>Values, rows and exceptions\<close>

text \<open>
  The relational rows carry integers, strings, a decimal price, a calendar date and
  timestamps.  The conversions that the Python runtime and the graph store perform on
  them (\<^verbatim>\<open>float(..)\<close>, \<^verbatim>\<open>str(..)\<close>, \<^verbatim>\<open>.isoformat()\<close>, Cypher's
  \<^verbatim>\<open>date(..)\<close> and \<^verbatim>\<open>datetime(..)\<close>) are library code; a value that went through one
  of them is kept as a term that names the conversion.
\<close>

type_synonym decimal = "int \<times> int"
type_synonym date = "nat \<times> nat \<times> nat"
type_synonym timestamp = "date \<times> nat \<times> nat \<times> nat"

datatype val =
    IntV int
  | StrV string
  | FloatOf decimal
  | StrOfDate date
  | IsoOf timestamp
  | StrOfTs timestamp
  | DateFn val
  | DateTimeFn val

record category_row =
  cat_id :: int
  cat_name :: string

record product_row =
  prod_id :: int
  prod_name :: string
  prod_price :: decimal
  prod_category_id :: int

record customer_row =
  cust_id :: int
  cust_name :: string
  cust_join_date :: date

record order_row =
  ord_id :: int
  ord_customer_id :: int
  ord_ts :: timestamp

record order_item_row =
  item_order_id :: int
  item_product_id :: int
  item_quantity :: int

record event_row =
  ev_customer_id :: int
  ev_product_id :: int
  ev_event_type :: string
  ev_ts :: timestamp

text \<open>The relational database, as \<^verbatim>\<open>SELECT * FROM t\<close> returns each table.\<close>

record source =
  categories :: "category_row list"
  products :: "product_row list"
  customers :: "customer_row list"
  orders :: "order_row list"
  order_items :: "order_item_row list"
  events :: "event_row list"

text \<open>
  Python exceptions.  \<open>PyException msg cause\<close> is \<^verbatim>\<open>Exception(msg)\<close> with its
  \<^verbatim>\<open>__cause__\<close> (set by \<^verbatim>\<open>raise ... from e\<close>); \<open>OperationalError\<close> is psycopg2's;
  \<open>DriverError\<close> is any exception of the graph driver; \<open>DatabaseError\<close> is any other
  psycopg2 or pandas error; \<open>HTTPException\<close> is FastAPI's; \<open>ValueError\<close> is the
  built-in one.
\<close>

datatype exn =
    OperationalError string
  | DatabaseError string
  | DriverError string
  | PyException string "exn option"
  | HTTPException nat string
  | ValueError string

fun str_exn :: "exn \<Rightarrow> string" where
  "str_exn (OperationalError m) = m"
| "str_exn (DatabaseError m) = m"
| "str_exn (DriverError m) = m"
| "str_exn (PyException m c) = m"
| "str_exn (HTTPException c m) = m"
| "str_exn (ValueError m) = m"

section \<open>Text\<close>

definition digit :: "nat \<Rightarrow> char" where
  "digit n = ''0123456789'' ! n"

fun show_nat :: "nat \<Rightarrow> string" where
  "show_nat n = (if n < 10 then [digit n] else show_nat (n div 10) @ [digit (n mod 10)])"

declare show_nat.simps [simp del]

definition show_int :: "int \<Rightarrow> string" where
  "show_int i = (if i < 0 then CHR ''-'' # show_nat (nat (- i)) else show_nat (nat i))"

text \<open>
  \<^verbatim>\<open>str.strip()\<close> removes the characters for which \<^verbatim>\<open>str.isspace\<close> holds from both
  ends; below code point 256 these are 9 to 13, 28 to 32, 133 and 160.
\<close>

definition is_space :: "char \<Rightarrow> bool" where
  "is_space c = (of_char c \<in> set [9, 10, 11, 12, 13, 28, 29, 30, 31, 32, 133, 160 :: nat])"

definition strip :: "string \<Rightarrow> string" where
  "strip s = rev (dropWhile is_space (rev (dropWhile is_space s)))"

text \<open>\<^verbatim>\<open>s.split(sep)\<close> for a one-character separator: always at least one segment.\<close>

fun split :: "char \<Rightarrow> string \<Rightarrow> string list" where
  "split sep [] = [[]]"
| "split sep (c # cs) =
     (if c = sep then [] # split sep cs
      else (case split sep cs of [] \<Rightarrow> [[c]] | seg # segs \<Rightarrow> (c # seg) # segs))"

section \<open>The graph store\<close>

datatype label = Category | Product | Customer | Order

datatype rel_type = IN_CATEGORY | PLACED | CONTAINS | INTERACTED

record node =
  nid :: nat
  nlabel :: label
  nprops :: "(string \<times> val) list"

record rel =
  rsrc :: nat
  rtype :: rel_type
  rdst :: nat
  rprops :: "(string \<times> val) list"

text \<open>
  A property graph: nodes with a store-assigned identity, relationships between node
  identities, the counter the next identity comes from, and the schema statements
  applied so far.
\<close>

record graph =
  nodes :: "node list"
  rels :: "rel list"
  next_id :: nat
  schema :: "string list"

text \<open>
  The statements the program sends, one constructor for each query text in the source,
  with the parameters in the order given:
  \<^item> \<open>DetachDeleteAll\<close>: \<^verbatim>\<open>MATCH (n) DETACH DELETE n\<close>
  \<^item> \<open>Return1\<close>: \<^verbatim>\<open>RETURN 1\<close>
  \<^item> \<open>Script s\<close>: the statement \<open>s\<close> of the schema script
  \<^item> \<open>CreateCategory id name\<close>: \<^verbatim>\<open>CREATE (cat:Category {id: $id, name: $name})\<close>
  \<^item> \<open>CreateProduct category_id id name price\<close>:
    \<^verbatim>\<open>MATCH (cat:Category {id: $category_id}) CREATE (p:Product {id: $id, name: $name, price: $price}) CREATE (p)-[:IN_CATEGORY]->(cat)\<close>
  \<^item> \<open>CreateCustomer id name join_date\<close>:
    \<^verbatim>\<open>CREATE (c:Customer {id: $id, name: $name, join_date: date($join_date)})\<close>
  \<^item> \<open>CreateOrder customer_id id ts\<close>:
    \<^verbatim>\<open>MATCH (c:Customer {id: $customer_id}) CREATE (o:Order {id: $id, timestamp: datetime($ts)}) CREATE (c)-[:PLACED]->(o)\<close>
  \<^item> \<open>CreateContains order_id product_id quantity\<close>:
    \<^verbatim>\<open>MATCH (o:Order {id: $order_id}) MATCH (p:Product {id: $product_id}) CREATE (o)-[:CONTAINS {quantity: $quantity}]->(p)\<close>
  \<^item> \<open>CreateInteracted customer_id product_id event_type ts\<close>:
    \<^verbatim>\<open>MATCH (c:Customer {id: $customer_id}) MATCH (p:Product {id: $product_id}) CREATE (c)-[:INTERACTED {event_type: $event_type, timestamp: datetime($ts)}]->(p)\<close>
\<close>

datatype stmt =
    DetachDeleteAll
  | Return1
  | Script string
  | CreateCategory val val
  | CreateProduct val val val val
  | CreateCustomer val val val
  | CreateOrder val val val
  | CreateContains val val val
  | CreateInteracted val val val val

text \<open>\<^verbatim>\<open>MATCH (x:L {id: v})\<close>: the nodes labelled \<open>L\<close> whose \<open>id\<close> property equals \<open>v\<close>.\<close>

definition match_nodes :: "graph \<Rightarrow> label \<Rightarrow> val \<Rightarrow> node list" where
  "match_nodes g l v = filter (\<lambda>n. nlabel n = l \<and> map_of (nprops n) ''id'' = Some v) (nodes g)"

definition create_node :: "label \<Rightarrow> (string \<times> val) list \<Rightarrow> graph \<Rightarrow> graph" where
  "create_node l ps g =
     g\<lparr>nodes := nodes g @ [\<lparr>nid = next_id g, nlabel = l, nprops = ps\<rparr>],
       next_id := Suc (next_id g)\<rparr>"

definition create_rel :: "nat \<Rightarrow> rel_type \<Rightarrow> nat \<Rightarrow> (string \<times> val) list \<Rightarrow> graph \<Rightarrow> graph" where
  "create_rel s t d ps g = g\<lparr>rels := rels g @ [\<lparr>rsrc = s, rtype = t, rdst = d, rprops = ps\<rparr>]\<rparr>"

text \<open>
  What a statement does to the store when it succeeds.  A \<^verbatim>\<open>MATCH\<close> yields one row for
  each match (the product of the rows for two \<^verbatim>\<open>MATCH\<close> clauses), evaluated on the
  graph before the statement; the \<^verbatim>\<open>CREATE\<close> clauses run once for every row, so not at
  all when nothing matches.

  Modelled from the spec: the schema script \<^verbatim>\<open>queries.cypher\<close> is not among the
  sources; the spec describes its statements as constraints and indexes, so a script
  statement is added to the store's schema and leaves nodes and relationships as they
  are.
\<close>

fun exec_stmt :: "stmt \<Rightarrow> graph \<Rightarrow> graph" where
  "exec_stmt DetachDeleteAll g = g\<lparr>nodes := [], rels := []\<rparr>"
| "exec_stmt Return1 g = g"
| "exec_stmt (Script s) g = g\<lparr>schema := schema g @ [s]\<rparr>"
| "exec_stmt (CreateCategory i n) g =
     create_node Category [(''id'', i), (''name'', n)] g"
| "exec_stmt (CreateProduct c i n p) g =
     fold (\<lambda>cat h. create_rel (next_id h) IN_CATEGORY (nid cat) []
                     (create_node Product [(''id'', i), (''name'', n), (''price'', p)] h))
          (match_nodes g Category c) g"
| "exec_stmt (CreateCustomer i n d) g =
     create_node Customer [(''id'', i), (''name'', n), (''join_date'', DateFn d)] g"
| "exec_stmt (CreateOrder c i t) g =
     fold (\<lambda>cu h. create_rel (nid cu) PLACED (next_id h) []
                    (create_node Order [(''id'', i), (''timestamp'', DateTimeFn t)] h))
          (match_nodes g Customer c) g"
| "exec_stmt (CreateContains oid pid q) g =
     fold (\<lambda>(ordr, prd) h. create_rel (nid ordr) CONTAINS (nid prd) [(''quantity'', q)] h)
          (List.product (match_nodes g Order oid) (match_nodes g Product pid)) g"
| "exec_stmt (CreateInteracted cid pid et t) g =
     fold (\<lambda>(cu, prd) h. create_rel (nid cu) INTERACTED (nid prd)
                         [(''event_type'', et), (''timestamp'', DateTimeFn t)] h)
          (List.product (match_nodes g Customer cid) (match_nodes g Product pid)) g"

section \<open>The world a run acts on\<close>

datatype table = T_categories | T_products | T_customers | T_orders | T_order_items | T_events

text \<open>
  Handles: \<open>ProbeConn\<close> and \<open>ProbeDriver\<close> are the connection and the driver that the
  readiness probes create, \<open>EtlConn\<close> and \<open>EtlDriver\<close> are \<^verbatim>\<open>pg_conn\<close> and
  \<^verbatim>\<open>neo4j_driver\<close> of \<^verbatim>\<open>etl()\<close>, \<open>Session\<close> is a graph session, \<open>Cursor\<close> a
  relational cursor.
\<close>

datatype handle = ProbeConn | ProbeDriver | EtlConn | EtlDriver | Session | Cursor

text \<open>
  Calls that leave the process.  \<open>Connect h\<close> is \<^verbatim>\<open>psycopg2.connect\<close>, \<open>Open h\<close> creates
  a driver, a session or a cursor, \<open>Close h\<close> closes a handle (also at the end of a
  \<^verbatim>\<open>with\<close> block), \<open>Run s\<close> is \<^verbatim>\<open>session.run\<close>, \<open>ReadSql t\<close> is the query
  \<^verbatim>\<open>SELECT * FROM t\<close>, \<open>Sleep d\<close> is \<^verbatim>\<open>time.sleep(d)\<close>.
\<close>

datatype call = Connect handle | Open handle | Close handle | Run stmt | ReadSql table | Sleep int

text \<open>
  \<open>faults\<close> fixes the environment: the \<open>n\<close>-th call that can raise (\<open>Connect\<close>, \<open>Run\<close>,
  \<open>ReadSql\<close>) raises \<open>e\<close> when \<open>faults n = Some e\<close>.  \<open>calls\<close> counts those calls,
  \<open>trace\<close> records every call with its outcome, \<open>out\<close> is the standard output, one
  entry for each \<^verbatim>\<open>print\<close>.  \<open>schema_file\<close> is the content of \<^verbatim>\<open>queries.cypher\<close>, or
  \<open>None\<close> when it does not exist.  Creating a driver, a session or a cursor and closing
  a handle do not raise.
\<close>

record world =
  faults :: "nat \<Rightarrow> exn option"
  calls :: nat
  schema_file :: "string option"
  db :: source
  graph :: graph
  out :: "string list"
  trace :: "(call \<times> exn option) list"

definition print :: "string \<Rightarrow> world \<Rightarrow> world" where
  "print s w = w\<lparr>out := out w @ [s]\<rparr>"

definition emit :: "call \<Rightarrow> world \<Rightarrow> world" where
  "emit c w = w\<lparr>trace := trace w @ [(c, None)]\<rparr>"

definition tick :: "call \<Rightarrow> world \<Rightarrow> world" where
  "tick c w = w\<lparr>calls := Suc (calls w), trace := trace w @ [(c, faults w (calls w))]\<rparr>"

definition attempt :: "call \<Rightarrow> world \<Rightarrow> exn option \<times> world" where
  "attempt c w = (faults w (calls w), tick c w)"

text \<open>Sequencing of steps that may raise: the first exception ends the sequence.\<close>

definition bind ::
  "(world \<Rightarrow> (exn + 'a) \<times> world) \<Rightarrow> ('a \<Rightarrow> world \<Rightarrow> (exn + 'b) \<times> world) \<Rightarrow>
   world \<Rightarrow> (exn + 'b) \<times> world" where
  "bind m k w = (case m w of (Inl e, w') \<Rightarrow> (Inl e, w') | (Inr x, w') \<Rightarrow> k x w')"

definition step :: "(world \<Rightarrow> world) \<Rightarrow> world \<Rightarrow> (exn + unit) \<times> world" where
  "step f w = (Inr (), f w)"

definition ret :: "'a \<Rightarrow> world \<Rightarrow> (exn + 'a) \<times> world" where
  "ret x w = (Inr x, w)"

text \<open>A \<^verbatim>\<open>for\<close> loop whose body may raise.\<close>

fun for_each ::
  "('r \<Rightarrow> world \<Rightarrow> (exn + unit) \<times> world) \<Rightarrow> 'r list \<Rightarrow> world \<Rightarrow> (exn + unit) \<times> world" where
  "for_each f [] w = (Inr (), w)"
| "for_each f (x # xs) w =
     (case f x w of (Inl e, w') \<Rightarrow> (Inl e, w') | (Inr u, w') \<Rightarrow> for_each f xs w')"

text \<open>
  A \<^verbatim>\<open>with\<close> block over a session or a cursor: the handle is closed on every exit,
  and an exception of the body goes on to the caller.
\<close>

definition with_handle ::
  "handle \<Rightarrow> (world \<Rightarrow> (exn + 'a) \<times> world) \<Rightarrow> world \<Rightarrow> (exn + 'a) \<times> world" where
  "with_handle h body w =
     (case body (emit (Open h) w) of (r, w') \<Rightarrow> (r, emit (Close h) w'))"

text \<open>\<^verbatim>\<open>psycopg2.connect\<close>.\<close>

definition connect :: "handle \<Rightarrow> world \<Rightarrow> (exn + unit) \<times> world" where
  "connect h w =
     (case attempt (Connect h) w of (Some e, w') \<Rightarrow> (Inl e, w') | (None, w') \<Rightarrow> (Inr (), w'))"

text \<open>
  \<^verbatim>\<open>pd.read_sql("SELECT * FROM t", pg_conn)\<close>, and \<^verbatim>\<open>cur.execute\<close> followed by
  \<^verbatim>\<open>cur.fetchall()\<close>: the rows of the table, in the order the database returns them.
\<close>

definition read_sql ::
  "table \<Rightarrow> (source \<Rightarrow> 'r list) \<Rightarrow> world \<Rightarrow> (exn + 'r list) \<times> world" where
  "read_sql t sel w =
     (case attempt (ReadSql t) w of
        (Some e, w') \<Rightarrow> (Inl e, w')
      | (None, w') \<Rightarrow> (Inr (sel (db w')), w'))"

text \<open>\<^verbatim>\<open>session.run(statement)\<close>: the store is changed only when the call succeeds.\<close>

definition session_run :: "stmt \<Rightarrow> world \<Rightarrow> (exn + unit) \<times> world" where
  "session_run s w =
     (case attempt (Run s) w of
        (Some e, w') \<Rightarrow> (Inl e, w')
      | (None, w') \<Rightarrow> (Inr (), w'\<lparr>graph := exec_stmt s (graph w')\<rparr>))"

text \<open>
  \<^verbatim>\<open>time.sleep(d)\<close>: a negative \<open>d\<close> raises \<^verbatim>\<open>ValueError\<close>, whatever the stores do.
\<close>

definition sleep :: "int \<Rightarrow> world \<Rightarrow> (exn + unit) \<times> world" where
  "sleep d w =
     (if d < 0
      then (Inl (ValueError ''sleep length must be non-negative''),
            w\<lparr>trace := trace w
                 @ [(Sleep d, Some (ValueError ''sleep length must be non-negative''))]\<rparr>)
      else (Inr (), emit (Sleep d) w))"

section \<open>utils.py\<close>

text \<open>
  The loops of \<^verbatim>\<open>wait_for_postgres\<close> and \<^verbatim>\<open>wait_for_neo4j\<close> over the attempt numbers.
  \<^verbatim>\<open>time.sleep(delay)\<close> is called inside the \<^verbatim>\<open>except\<close> block, so an exception it
  raises leaves the function.
\<close>

fun pg_attempts :: "int \<Rightarrow> int \<Rightarrow> nat list \<Rightarrow> world \<Rightarrow> (exn + unit) \<times> world" where
  "pg_attempts max_retries delay [] w = (Inr (), w)"
| "pg_attempts max_retries delay (a # as) w =
     (case attempt (Connect ProbeConn) w of
        (None, w1) \<Rightarrow> (Inr (), print ''+ PostgreSQL is ready!'' (emit (Close ProbeConn) w1))
      | (Some (OperationalError m), w1) \<Rightarrow>
          if int a < max_retries - 1
          then (case sleep delay
                       (print (''  Attempt '' @ show_int (int a + 1) @ ''/''
                               @ show_int max_retries
                               @ '': PostgreSQL not ready yet, retrying in '' @ show_int delay
                               @ ''s...'') w1) of
                  (Inl e, w2) \<Rightarrow> (Inl e, w2)
                | (Inr u, w2) \<Rightarrow> pg_attempts max_retries delay as w2)
          else (Inl (PyException (''PostgreSQL not ready after '' @ show_int max_retries
                                  @ '' attempts'') (Some (OperationalError m))), w1)
      | (Some e, w1) \<Rightarrow> (Inl e, w1))"

text \<open>\<^verbatim>\<open>range(max_retries)\<close> is \<open>[0..<nat max_retries]\<close>: empty for zero and below.\<close>

definition wait_for_postgres :: "int \<Rightarrow> int \<Rightarrow> world \<Rightarrow> (exn + unit) \<times> world" where
  "wait_for_postgres max_retries delay w =
     pg_attempts max_retries delay [0..<nat max_retries]
       (print ''Waiting for PostgreSQL to be ready...'' w)"

fun neo4j_attempts :: "int \<Rightarrow> int \<Rightarrow> nat list \<Rightarrow> world \<Rightarrow> (exn + unit) \<times> world" where
  "neo4j_attempts max_retries delay [] w = (Inr (), w)"
| "neo4j_attempts max_retries delay (a # as) w =
     (case with_handle Session (session_run Return1) (emit (Open ProbeDriver) w) of
        (Inr u, w1) \<Rightarrow> (Inr (), print ''+ Neo4j is ready!'' (emit (Close ProbeDriver) w1))
      | (Inl e, w1) \<Rightarrow>
          if int a < max_retries - 1
          then (case sleep delay
                       (print (''  Attempt '' @ show_int (int a + 1) @ ''/''
                               @ show_int max_retries
                               @ '': Neo4j not ready yet, retrying in '' @ show_int delay
                               @ ''s...'') w1) of
                  (Inl e', w2) \<Rightarrow> (Inl e', w2)
                | (Inr u, w2) \<Rightarrow> neo4j_attempts max_retries delay as w2)
          else (Inl (PyException (''Neo4j not ready after '' @ show_int max_retries
                                  @ '' attempts'') (Some e)), w1))"

definition wait_for_neo4j :: "int \<Rightarrow> int \<Rightarrow> world \<Rightarrow> (exn + unit) \<times> world" where
  "wait_for_neo4j max_retries delay w =
     neo4j_attempts max_retries delay [0..<nat max_retries]
       (print ''Waiting for Neo4j to be ready...'' w)"

text \<open>
  \<^verbatim>\<open>run_cypher\<close>: one statement in a session of its own.  The list of records it returns
  is not kept: no caller in \<^verbatim>\<open>etl.py\<close> reads it.
\<close>

definition run_cypher :: "stmt \<Rightarrow> world \<Rightarrow> (exn + unit) \<times> world" where
  "run_cypher s w = with_handle Session (session_run s) w"

definition statements_of :: "string \<Rightarrow> string list" where
  "statements_of content = map strip (filter (\<lambda>s. strip s \<noteq> []) (split CHR '';'' content))"

text \<open>
  The loop of \<^verbatim>\<open>run_cypher_file\<close> over \<^verbatim>\<open>enumerate(statements, 1)\<close>; \<open>n\<close> is
  \<^verbatim>\<open>len(statements)\<close>.
\<close>

fun run_statements :: "nat \<Rightarrow> (nat \<times> string) list \<Rightarrow> world \<Rightarrow> (exn + unit) \<times> world" where
  "run_statements n [] w = (Inr (), w)"
| "run_statements n ((i, s) # rest) w =
     (case session_run (Script s) w of
        (Inr u, w1) \<Rightarrow>
          run_statements n rest
            (print (''  + Executed statement '' @ show_nat i @ ''/'' @ show_nat n) w1)
      | (Inl e, w1) \<Rightarrow>
          (Inl e, print (''  x Error in statement '' @ show_nat i @ '': '' @ str_exn e) w1))"

definition run_cypher_file :: "world \<Rightarrow> (exn + unit) \<times> world" where
  "run_cypher_file w =
     (case schema_file w of
        None \<Rightarrow> (Inr (), print ''Warning: Cypher file not found at queries.cypher'' w)
      | Some content \<Rightarrow>
          (let statements = statements_of content
           in with_handle Session
                (run_statements (length statements) (zip [1..<Suc (length statements)] statements))
                (print ''Executing Cypher file: queries.cypher'' w)))"

section \<open>etl.py\<close>

text \<open>
  In the printed text the check mark is written \<open>+\<close>, the cross \<open>x\<close>, the bullet
  \<open>*\<close> and the arrows \<open>->\<close> and \<open><-\<close>.
\<close>

definition nl :: string where
  "nl = [CHR 0x0A]"

text \<open>Lines 45 to 50: the schema script is run when \<^verbatim>\<open>queries_path.exists()\<close>.\<close>

definition etl_schema :: "world \<Rightarrow> (exn + unit) \<times> world" where
  "etl_schema w =
     (if schema_file w \<noteq> None
      then bind (step (print (nl @ ''[2/6] Setting up Neo4j schema...''))) (\<lambda>u. run_cypher_file) w
      else step (print (nl @ ''[2/6] No queries.cypher file found, skipping schema setup'')) w)"

definition stmt_category :: "category_row \<Rightarrow> stmt" where
  "stmt_category row = CreateCategory (IntV (cat_id row)) (StrV (cat_name row))"

definition stmt_product :: "product_row \<Rightarrow> stmt" where
  "stmt_product row =
     CreateProduct (IntV (prod_category_id row)) (IntV (prod_id row)) (StrV (prod_name row))
       (FloatOf (prod_price row))"

definition stmt_customer :: "customer_row \<Rightarrow> stmt" where
  "stmt_customer row =
     CreateCustomer (IntV (cust_id row)) (StrV (cust_name row)) (StrOfDate (cust_join_date row))"

text \<open>
  The timestamp parameter: \<^verbatim>\<open>etl()\<close> passes \<^verbatim>\<open>row['ts'].isoformat()\<close> (\<open>IsoOf\<close>),
  \<^verbatim>\<open>migrate_to_neo4j()\<close> passes \<^verbatim>\<open>str(order['ts'])\<close> (\<open>StrOfTs\<close>).
\<close>

definition stmt_order :: "(timestamp \<Rightarrow> val) \<Rightarrow> order_row \<Rightarrow> stmt" where
  "stmt_order ts_text row =
     CreateOrder (IntV (ord_customer_id row)) (IntV (ord_id row)) (ts_text (ord_ts row))"

definition stmt_order_item :: "order_item_row \<Rightarrow> stmt" where
  "stmt_order_item row =
     CreateContains (IntV (item_order_id row)) (IntV (item_product_id row))
       (IntV (item_quantity row))"

definition stmt_event :: "(timestamp \<Rightarrow> val) \<Rightarrow> event_row \<Rightarrow> stmt" where
  "stmt_event ts_text row =
     CreateInteracted (IntV (ev_customer_id row)) (IntV (ev_product_id row))
       (StrV (ev_event_type row)) (ts_text (ev_ts row))"

text \<open>Lines 52 to 67.\<close>

definition etl_categories :: "world \<Rightarrow> (exn + category_row list) \<times> world" where
  "etl_categories =
     bind (step (print (nl @ ''[3/6] Migrating Categories...''))) (\<lambda>u.
     bind (read_sql T_categories categories) (\<lambda>df.
     bind (step (print (''  Found '' @ show_nat (length df) @ '' categories''))) (\<lambda>u.
     bind (for_each (\<lambda>row. run_cypher (stmt_category row)) df) (\<lambda>u.
     bind (step (print (''  + Migrated '' @ show_nat (length df) @ '' categories''))) (\<lambda>u.
     ret df)))))"

text \<open>Lines 69 to 89.\<close>

definition etl_products :: "world \<Rightarrow> (exn + product_row list) \<times> world" where
  "etl_products =
     bind (step (print (nl @ ''[4/6] Migrating Products...''))) (\<lambda>u.
     bind (read_sql T_products products) (\<lambda>df.
     bind (step (print (''  Found '' @ show_nat (length df) @ '' products''))) (\<lambda>u.
     bind (for_each (\<lambda>row. run_cypher (stmt_product row)) df) (\<lambda>u.
     bind (step (print (''  + Migrated '' @ show_nat (length df) @ '' products''))) (\<lambda>u.
     ret df)))))"

text \<open>Lines 91 to 108.\<close>

definition etl_customers :: "world \<Rightarrow> (exn + customer_row list) \<times> world" where
  "etl_customers =
     bind (step (print (nl @ ''[5/6] Migrating Customers...''))) (\<lambda>u.
     bind (read_sql T_customers customers) (\<lambda>df.
     bind (step (print (''  Found '' @ show_nat (length df) @ '' customers''))) (\<lambda>u.
     bind (for_each (\<lambda>row. run_cypher (stmt_customer row)) df) (\<lambda>u.
     bind (step (print (''  + Migrated '' @ show_nat (length df) @ '' customers''))) (\<lambda>u.
     ret df)))))"

text \<open>Lines 110 to 131.\<close>

definition etl_orders :: "world \<Rightarrow> (exn + order_row list) \<times> world" where
  "etl_orders =
     bind (step (print (nl @ ''[6/6] Migrating Orders and Order Items...''))) (\<lambda>u.
     bind (read_sql T_orders orders) (\<lambda>df.
     bind (step (print (''  Found '' @ show_nat (length df) @ '' orders''))) (\<lambda>u.
     bind (for_each (\<lambda>row. run_cypher (stmt_order IsoOf row)) df) (\<lambda>u.
     bind (step (print (''  + Created '' @ show_nat (length df) @ '' orders''))) (\<lambda>u.
     ret df)))))"

text \<open>Lines 133 to 147.\<close>

definition etl_order_items :: "world \<Rightarrow> (exn + order_item_row list) \<times> world" where
  "etl_order_items =
     bind (read_sql T_order_items order_items) (\<lambda>df.
     bind (step (print (''  Found '' @ show_nat (length df) @ '' order items''))) (\<lambda>u.
     bind (for_each (\<lambda>row. run_cypher (stmt_order_item row)) df) (\<lambda>u.
     bind (step (print (''  + Created '' @ show_nat (length df)
                        @ '' order-product relationships''))) (\<lambda>u.
     ret df))))"

text \<open>Lines 149 to 170.\<close>

definition etl_events :: "world \<Rightarrow> (exn + event_row list) \<times> world" where
  "etl_events =
     bind (step (print (nl @ ''[Bonus] Migrating Customer Events...''))) (\<lambda>u.
     bind (read_sql T_events events) (\<lambda>df.
     bind (step (print (''  Found '' @ show_nat (length df) @ '' events''))) (\<lambda>u.
     bind (for_each (\<lambda>row. run_cypher (stmt_event IsoOf row)) df) (\<lambda>u.
     bind (step (print (''  + Created '' @ show_nat (length df)
                        @ '' interaction relationships''))) (\<lambda>u.
     ret df)))))"

text \<open>Lines 172 to 187: the closing report, one entry for each \<^verbatim>\<open>print\<close>.\<close>

definition summary_lines :: "nat \<Rightarrow> nat \<Rightarrow> nat \<Rightarrow> nat \<Rightarrow> nat \<Rightarrow> nat \<Rightarrow> string list" where
  "summary_lines n_cat n_prod n_cust n_ord n_item n_ev =
     [nl @ replicate 60 CHR ''='',
      ''ETL Process Completed Successfully!'',
      replicate 60 CHR ''='',
      nl @ ''Migrated:'',
      ''  * '' @ show_nat n_cat @ '' categories'',
      ''  * '' @ show_nat n_prod @ '' products'',
      ''  * '' @ show_nat n_cust @ '' customers'',
      ''  * '' @ show_nat n_ord @ '' orders'',
      ''  * '' @ show_nat n_item @ '' order items'',
      ''  * '' @ show_nat n_ev @ '' customer events'',
      nl @ ''Graph structure created:'',
      ''  * Category <- IN_CATEGORY <- Product'',
      ''  * Customer -> PLACED -> Order -> CONTAINS -> Product'',
      ''  * Customer -> INTERACTED -> Product'',
      []]"

definition print_all :: "string list \<Rightarrow> world \<Rightarrow> world" where
  "print_all ls w = w\<lparr>out := out w @ ls\<rparr>"

text \<open>Lines 45 to 187: the schema script, the six stages and the closing report.\<close>

definition etl_load :: "world \<Rightarrow> (exn + unit) \<times> world" where
  "etl_load =
     bind etl_schema (\<lambda>u.
     bind etl_categories (\<lambda>df_categories.
     bind etl_products (\<lambda>df_products.
     bind etl_customers (\<lambda>df_customers.
     bind etl_orders (\<lambda>df_orders.
     bind etl_order_items (\<lambda>df_order_items.
     bind etl_events (\<lambda>df_events.
     step (print_all (summary_lines (length df_categories) (length df_products)
                        (length df_customers) (length df_orders) (length df_order_items)
                        (length df_events))))))))))"

text \<open>The \<^verbatim>\<open>try\<close> block, lines 40 to 187: the graph is cleared, then loaded.\<close>

definition etl_try :: "world \<Rightarrow> (exn + unit) \<times> world" where
  "etl_try =
     bind (step (print (nl @ ''[1/6] Clearing existing Neo4j data...''))) (\<lambda>u.
     bind (run_cypher DetachDeleteAll) (\<lambda>u.
     bind (step (print ''  + Neo4j database cleared'')) (\<lambda>u.
     etl_load)))"

text \<open>The \<^verbatim>\<open>finally\<close> block, lines 192 to 196.\<close>

definition etl_finally :: "world \<Rightarrow> world" where
  "etl_finally w =
     print (''Database connections closed.'' @ nl) (emit (Close EtlDriver) (emit (Close EtlConn) w))"

text \<open>
  Lines 39 to 196: the \<^verbatim>\<open>try\<close> block with its \<^verbatim>\<open>except\<close> clause, which prints the
  exception and raises it again, and its \<^verbatim>\<open>finally\<close> clause.
\<close>

definition etl_guarded :: "world \<Rightarrow> (exn + unit) \<times> world" where
  "etl_guarded w =
     (case etl_try w of
        (Inl e, w') \<Rightarrow>
          (Inl e, etl_finally (print (nl @ ''x ETL process failed: '' @ str_exn e) w'))
      | (Inr r, w') \<Rightarrow> (Inr (), etl_finally w'))"

text \<open>
  Lines 18 to 37: the readiness probes, with their default arguments of 30 attempts and
  2 seconds, and the two connections.
\<close>

definition etl_connect :: "world \<Rightarrow> (exn + unit) \<times> world" where
  "etl_connect =
     bind (wait_for_postgres 30 2) (\<lambda>u.
     bind (wait_for_neo4j 30 2) (\<lambda>u.
     bind (step (print_all [nl @ replicate 60 CHR ''='',
                            ''Starting ETL Process: PostgreSQL -> Neo4j'',
                            replicate 60 CHR ''='' @ nl,
                            ''Connecting to databases...''])) (\<lambda>u.
     bind (connect EtlConn) (\<lambda>u.
     step (emit (Open EtlDriver))))))"

text \<open>
  \<^verbatim>\<open>etl()\<close>.  It has no \<^verbatim>\<open>return\<close> statement: a run that completes returns
  \<^verbatim>\<open>None\<close>, the unit value here.
\<close>

definition etl :: "world \<Rightarrow> (exn + unit) \<times> world" where
  "etl = bind etl_connect (\<lambda>u. etl_guarded)"

section \<open>main.py\<close>

text \<open>
  \<^verbatim>\<open>migrate_to_neo4j()\<close> works on the connection and the driver of the process, over
  one session; each table is read through a cursor of its own, and the rows are written
  while the cursor is open.
\<close>

definition mig_customers :: "world \<Rightarrow> (exn + unit) \<times> world" where
  "mig_customers =
     with_handle Cursor
       (bind (read_sql T_customers customers)
             (for_each (\<lambda>row. session_run (stmt_customer row))))"

definition mig_categories :: "world \<Rightarrow> (exn + unit) \<times> world" where
  "mig_categories =
     with_handle Cursor
       (bind (read_sql T_categories categories)
             (for_each (\<lambda>row. session_run (stmt_category row))))"

definition mig_products :: "world \<Rightarrow> (exn + unit) \<times> world" where
  "mig_products =
     with_handle Cursor
       (bind (read_sql T_products products)
             (for_each (\<lambda>row. session_run (stmt_product row))))"

definition mig_orders :: "world \<Rightarrow> (exn + unit) \<times> world" where
  "mig_orders =
     with_handle Cursor
       (bind (read_sql T_orders orders)
             (for_each (\<lambda>row. session_run (stmt_order StrOfTs row))))"

definition mig_order_items :: "world \<Rightarrow> (exn + unit) \<times> world" where
  "mig_order_items =
     with_handle Cursor
       (bind (read_sql T_order_items order_items)
             (for_each (\<lambda>row. session_run (stmt_order_item row))))"

definition mig_events :: "world \<Rightarrow> (exn + unit) \<times> world" where
  "mig_events =
     with_handle Cursor
       (bind (read_sql T_events events)
             (for_each (\<lambda>row. session_run (stmt_event StrOfTs row))))"

definition mig_load :: "world \<Rightarrow> (exn + unit) \<times> world" where
  "mig_load =
     bind mig_customers (\<lambda>u.
     bind mig_categories (\<lambda>u.
     bind mig_products (\<lambda>u.
     bind mig_orders (\<lambda>u.
     bind mig_order_items (\<lambda>u.
     mig_events)))))"

definition mig_session :: "world \<Rightarrow> (exn + unit) \<times> world" where
  "mig_session =
     with_handle Session (bind (session_run DetachDeleteAll) (\<lambda>u. mig_load))"

text \<open>The value returned is the dictionary with the keys \<^verbatim>\<open>status\<close> and \<^verbatim>\<open>message\<close>.\<close>

definition migrate_to_neo4j :: "world \<Rightarrow> (exn + (string \<times> string) list) \<times> world" where
  "migrate_to_neo4j w =
     (case mig_session w of
        (Inl e, w') \<Rightarrow> (Inl (HTTPException 500 (str_exn e)), w')
      | (Inr u, w') \<Rightarrow>
          (Inr [(''status'', ''success''), (''message'', ''Data migrated to Neo4j'')], w'))"

section \<open>Observations of a run\<close>

text \<open>The calls a step makes: what it adds to the trace.\<close>

definition run_events :: "(world \<Rightarrow> 'r \<times> world) \<Rightarrow> world \<Rightarrow> (call \<times> exn option) list" where
  "run_events f w = drop (length (trace w)) (trace (snd (f w)))"

text \<open>
  The calls of one probe of each store with outcome \<open>r\<close>, and the calls of \<open>k\<close> failed
  probes in a row, each followed by the sleep; \<open>f\<close> gives the outcomes and \<open>c\<close> is the
  number of the first one.
\<close>

definition pg_probe :: "exn option \<Rightarrow> (call \<times> exn option) list" where
  "pg_probe r = [(Connect ProbeConn, r)]"

definition neo4j_probe :: "exn option \<Rightarrow> (call \<times> exn option) list" where
  "neo4j_probe r =
     [(Open ProbeDriver, None), (Open Session, None), (Run Return1, r), (Close Session, None)]"


text \<open>Worlds to run the program on.\<close>

definition mk_world :: "(nat \<Rightarrow> exn option) \<Rightarrow> string option \<Rightarrow> source \<Rightarrow> graph \<Rightarrow> world" where
  "mk_world f sf src g =
     \<lparr>faults = f, calls = 0, schema_file = sf, db = src, graph = g, out = [], trace = []\<rparr>"

definition empty_source :: source where
  "empty_source =
     \<lparr>categories = [], products = [], customers = [], orders = [], order_items = [], events = []\<rparr>"

definition empty_graph :: graph where
  "empty_graph = \<lparr>nodes = [], rels = [], next_id = 0, schema = []\<rparr>"




text \<open>
  The statements of a script in the words of the specification: split at every \<open>;\<close>,
  trim each segment, drop the segments that are empty after trimming.
\<close>

definition spec_statements :: "string \<Rightarrow> string list" where
  "spec_statements content = filter (\<lambda>s. s \<noteq> []) (map strip (split CHR '';'' content))"

text \<open>The calls that run the statements \<open>ss\<close> one after the other, all successful.\<close>

definition script_calls :: "string list \<Rightarrow> (call \<times> exn option) list" where
  "script_calls ss = map (\<lambda>s. (Run (Script s), None)) ss"

text \<open>The line printed after statement \<open>i\<close> of \<open>n\<close>.\<close>

definition executed_line :: "nat \<Rightarrow> nat \<Rightarrow> string" where
  "executed_line n i = ''  + Executed statement '' @ show_nat i @ ''/'' @ show_nat n"

text \<open>\<^verbatim>\<open>sep.join(segments)\<close>, to state that \<open>split\<close> loses nothing.\<close>

fun join :: "char \<Rightarrow> string list \<Rightarrow> string" where
  "join sep [] = []"
| "join sep [s] = s"
| "join sep (s # t # ts) = s @ sep # join sep (t # ts)"

text \<open>
  Schema scripts: two statements of which the second fails, one statement that fails,
  and two statements that succeed.
\<close>

definition script_ab_fails_second :: world where
  "script_ab_fails_second =
     mk_world (\<lambda>n. if n = 1 then Some (DriverError ''boom'') else None) (Some ''A; B;'')
       empty_source empty_graph"

definition script_c_fails_first :: world where
  "script_c_fails_first =
     mk_world (\<lambda>n. if n = 0 then Some (DriverError ''boom'') else None) (Some ''C'')
       empty_source empty_graph"

definition script_ab_ok :: world where
  "script_ab_ok = mk_world (\<lambda>n. None) (Some ''A; B;'') empty_source empty_graph"

text \<open>
  Handles opened and closed by a list of calls: \<open>opened h\<close> counts the successful calls
  that create \<open>h\<close>, \<open>closed h\<close> the calls that close it.
\<close>

definition opened :: "handle \<Rightarrow> (call \<times> exn option) list \<Rightarrow> nat" where
  "opened h es = length (filter (\<lambda>(c, r). (c = Connect h \<or> c = Open h) \<and> r = None) es)"

definition closed :: "handle \<Rightarrow> (call \<times> exn option) list \<Rightarrow> nat" where
  "closed h es = length (filter (\<lambda>(c, r). c = Close h) es)"

definition balanced :: "handle \<Rightarrow> (call \<times> exn option) list \<Rightarrow> bool" where
  "balanced h es = (opened h es = closed h es)"

text \<open>
  \<open>emits m P\<close>: from every world, the calls that \<open>m\<close> adds to the trace satisfy \<open>P\<close>.
  \<open>monoidal P\<close>: \<open>P\<close> holds of no calls and of two lists of calls put together.
\<close>

definition emits :: "(world \<Rightarrow> 'r \<times> world) \<Rightarrow> ((call \<times> exn option) list \<Rightarrow> bool) \<Rightarrow> bool" where
  "emits m P = (\<forall>w. \<exists>es. trace (snd (m w)) = trace w @ es \<and> P es)"

definition monoidal :: "((call \<times> exn option) list \<Rightarrow> bool) \<Rightarrow> bool" where
  "monoidal P = (P [] \<and> (\<forall>a b. P a \<longrightarrow> P b \<longrightarrow> P (a @ b)))"

text \<open>The calls of one \<^verbatim>\<open>run_cypher\<close> that succeeds.\<close>

definition run_cypher_calls :: "stmt \<Rightarrow> (call \<times> exn option) list" where
  "run_cypher_calls s = [(Open Session, None), (Run s, None), (Close Session, None)]"

text \<open>
  The calls of one stage of \<^verbatim>\<open>etl()\<close> when nothing fails: the table is read, then one
  \<^verbatim>\<open>run_cypher\<close> for each statement.
\<close>

definition stage_calls :: "table \<Rightarrow> stmt list \<Rightarrow> (call \<times> exn option) list" where
  "stage_calls t ss = (ReadSql t, None) # concat (map run_cypher_calls ss)"

text \<open>The statements of the schema script of a world, and the calls that run them.\<close>

definition script_statements :: "world \<Rightarrow> string list" where
  "script_statements w = (case schema_file w of None \<Rightarrow> [] | Some content \<Rightarrow> statements_of content)"

definition script_session_calls :: "world \<Rightarrow> (call \<times> exn option) list" where
  "script_session_calls w =
     (case schema_file w of
        None \<Rightarrow> []
      | Some content \<Rightarrow>
          (Open Session, None) # script_calls (statements_of content) @ [(Close Session, None)])"

text \<open>
  The statements of the six stages in the order of \<^verbatim>\<open>etl()\<close>, and the calls of its
  \<^verbatim>\<open>try\<close> block when nothing fails.
\<close>

definition etl_statements :: "(timestamp \<Rightarrow> val) \<Rightarrow> source \<Rightarrow> stmt list" where
  "etl_statements ts_text src =
     map stmt_category (categories src) @ map stmt_product (products src)
     @ map stmt_customer (customers src) @ map (stmt_order ts_text) (orders src)
     @ map stmt_order_item (order_items src) @ map (stmt_event ts_text) (events src)"

definition etl_try_calls :: "world \<Rightarrow> (call \<times> exn option) list" where
  "etl_try_calls w =
     run_cypher_calls DetachDeleteAll @ script_session_calls w
     @ stage_calls T_categories (map stmt_category (categories (db w)))
     @ stage_calls T_products (map stmt_product (products (db w)))
     @ stage_calls T_customers (map stmt_customer (customers (db w)))
     @ stage_calls T_orders (map (stmt_order IsoOf) (orders (db w)))
     @ stage_calls T_order_items (map stmt_order_item (order_items (db w)))
     @ stage_calls T_events (map (stmt_event IsoOf) (events (db w)))"

text \<open>The closing report of \<^verbatim>\<open>etl()\<close> for a source.\<close>

definition summary_of :: "source \<Rightarrow> string list" where
  "summary_of src =
     summary_lines (length (categories src)) (length (products src)) (length (customers src))
       (length (orders src)) (length (order_items src)) (length (events src))"

text \<open>What no step of the program changes: the database, the script, the outcomes.\<close>

definition same_env :: "world \<Rightarrow> world \<Rightarrow> bool" where
  "same_env w w' = (db w' = db w \<and> schema_file w' = schema_file w \<and> faults w' = faults w)"

text \<open>
  \<open>succeeds m\<close>: in a world where no call fails, \<open>m\<close> completes and leaves such a world.
\<close>

definition succeeds :: "(world \<Rightarrow> (exn + 'r) \<times> world) \<Rightarrow> bool" where
  "succeeds m =
     (\<forall>w. (\<forall>n. faults w n = None) \<longrightarrow>
          (\<exists>x. fst (m w) = Inr x) \<and> (\<forall>n. faults (snd (m w)) n = None))"

text \<open>
  A small shop: one category, one product in it, one customer, one order of that
  customer with one item; and the same shop whose order item names product 99, which
  does not exist.
\<close>

definition tiny_source :: source where
  "tiny_source =
     \<lparr>categories = [\<lparr>cat_id = 1, cat_name = ''Books''\<rparr>],
      products = [\<lparr>prod_id = 10, prod_name = ''Novel'', prod_price = (1299, -2),
                   prod_category_id = 1\<rparr>],
      customers = [\<lparr>cust_id = 100, cust_name = ''Ada'', cust_join_date = (2024, 1, 15)\<rparr>],
      orders = [\<lparr>ord_id = 1000, ord_customer_id = 100, ord_ts = ((2024, 1, 15), 10, 30, 0)\<rparr>],
      order_items = [\<lparr>item_order_id = 1000, item_product_id = 10, item_quantity = 3\<rparr>],
      events = []\<rparr>"

definition dangling_source :: source where
  "dangling_source =
     tiny_source\<lparr>order_items := [\<lparr>item_order_id = 1000, item_product_id = 99, item_quantity = 3\<rparr>]\<rparr>"

definition no_faults :: "nat \<Rightarrow> exn option" where
  "no_faults n = None"

definition tiny_world :: world where
  "tiny_world = mk_world no_faults None tiny_source empty_graph"

definition dangling_world :: world where
  "dangling_world = mk_world no_faults None dangling_source empty_graph"

definition empty_world :: world where
  "empty_world = mk_world no_faults None empty_source empty_graph"

text \<open>
  The entity set a call works on: the table a query reads, the table whose rows a
  statement writes; no table for the other calls.
\<close>

fun stmt_table :: "stmt \<Rightarrow> table option" where
  "stmt_table (CreateCategory i n) = Some T_categories"
| "stmt_table (CreateProduct c i n p) = Some T_products"
| "stmt_table (CreateCustomer i n d) = Some T_customers"
| "stmt_table (CreateOrder c i t) = Some T_orders"
| "stmt_table (CreateContains oid pid q) = Some T_order_items"
| "stmt_table (CreateInteracted cid pid et t) = Some T_events"
| "stmt_table s = None"

fun call_table :: "call \<Rightarrow> table option" where
  "call_table (ReadSql t) = Some t"
| "call_table (Run s) = stmt_table s"
| "call_table c = None"

definition tables_of :: "(call \<times> exn option) list \<Rightarrow> table list" where
  "tables_of es = List.map_filter (\<lambda>e. call_table (fst e)) es"

text \<open>The calls that read or write an entity set, with their outcomes dropped.\<close>

definition migration_calls :: "(call \<times> exn option) list \<Rightarrow> call list" where
  "migration_calls es = filter (\<lambda>c. call_table c \<noteq> None) (map fst es)"




definition ordered_from :: "(table \<Rightarrow> nat) \<Rightarrow> nat \<Rightarrow> (call \<times> exn option) list \<Rightarrow> bool" where
  "ordered_from rank n es =
     (sorted (map rank (tables_of es)) \<and> (\<forall>t\<in>set (tables_of es). n \<le> rank t))"







section \<open>Basic facts\<close>

lemma print_fields [simp]:
  "faults (print s w) = faults w" "calls (print s w) = calls w"
  "schema_file (print s w) = schema_file w" "db (print s w) = db w"
  "graph (print s w) = graph w" "trace (print s w) = trace w"
  "out (print s w) = out w @ [s]"
  by (simp_all add: print_def)

lemma print_all_fields [simp]:
  "faults (print_all ls w) = faults w" "calls (print_all ls w) = calls w"
  "schema_file (print_all ls w) = schema_file w" "db (print_all ls w) = db w"
  "graph (print_all ls w) = graph w" "trace (print_all ls w) = trace w"
  "out (print_all ls w) = out w @ ls"
  by (simp_all add: print_all_def)

lemma emit_fields [simp]:
  "faults (emit c w) = faults w" "calls (emit c w) = calls w"
  "schema_file (emit c w) = schema_file w" "db (emit c w) = db w"
  "graph (emit c w) = graph w" "trace (emit c w) = trace w @ [(c, None)]"
  "out (emit c w) = out w"
  by (simp_all add: emit_def)

lemma tick_fields [simp]:
  "faults (tick c w) = faults w" "calls (tick c w) = Suc (calls w)"
  "schema_file (tick c w) = schema_file w" "db (tick c w) = db w"
  "graph (tick c w) = graph w"
  "trace (tick c w) = trace w @ [(c, faults w (calls w))]"
  "out (tick c w) = out w"
  by (simp_all add: tick_def)

section \<open>The readiness gate\<close>


lemma neo4j_probe_append:
  "neo4j_probe r @ xs =
     (Open ProbeDriver, None) # (Open Session, None) # (Run Return1, r) # (Close Session, None) # xs"
  by (simp add: neo4j_probe_def)



lemma sleep_ok: "0 \<le> d \<Longrightarrow> sleep d w = (Inr (), emit (Sleep d) w)"
  by (simp add: sleep_def)

lemma sleep_negative:
  "d < 0 \<Longrightarrow>
   sleep d w =
     (Inl (ValueError ''sleep length must be non-negative''),
      w\<lparr>trace := trace w @ [(Sleep d, Some (ValueError ''sleep length must be non-negative''))]\<rparr>)"
  by (simp add: sleep_def)

lemma pg_attempts_ok:
  "faults w (calls w) = None \<Longrightarrow>
   pg_attempts m d (a # as) w =
     (Inr (), print ''+ PostgreSQL is ready!'' (emit (Close ProbeConn) (tick (Connect ProbeConn) w)))"
  by (simp add: attempt_def)

lemma pg_attempts_retry:
  "faults w (calls w) = Some (OperationalError msg) \<Longrightarrow> int a < m - 1 \<Longrightarrow> 0 \<le> d \<Longrightarrow>
   \<exists>s. pg_attempts m d (a # as) w =
     pg_attempts m d as (emit (Sleep d) (print s (tick (Connect ProbeConn) w)))"
  by (simp add: attempt_def sleep_ok) blast

lemma pg_attempts_negative:
  "faults w (calls w) = Some (OperationalError msg) \<Longrightarrow> int a < m - 1 \<Longrightarrow> d < 0 \<Longrightarrow>
   fst (pg_attempts m d (a # as) w) = Inl (ValueError ''sleep length must be non-negative'') \<and>
   trace (snd (pg_attempts m d (a # as) w)) =
     trace w @ pg_probe (Some (OperationalError msg))
       @ [(Sleep d, Some (ValueError ''sleep length must be non-negative''))]"
  by (simp add: attempt_def sleep_negative pg_probe_def)














lemma run_events_append:
  "trace (snd (f w)) = trace w @ es \<Longrightarrow> run_events f w = es"
  by (simp add: run_events_def)








lemma mk_world_fields [simp]:
  "faults (mk_world f sf src g) = f" "calls (mk_world f sf src g) = 0"
  "schema_file (mk_world f sf src g) = sf" "db (mk_world f sf src g) = src"
  "graph (mk_world f sf src g) = g" "out (mk_world f sf src g) = []"
  "trace (mk_world f sf src g) = []"
  by (simp_all add: mk_world_def)

lemma show_nat_digit: "n < 10 \<Longrightarrow> show_nat n = [digit n]"
  by (simp add: show_nat.simps)
















section \<open>The schema script\<close>

lemma statements_of_spec: "statements_of content = spec_statements content"
  by (simp add: statements_of_def spec_statements_def filter_map comp_def)

lemma split_nonempty: "split sep s \<noteq> []"
  by (induction s) (auto split: list.splits)

lemma split_no_sep: "seg \<in> set (split sep s) \<Longrightarrow> sep \<notin> set seg"
  by (induction s arbitrary: seg) (auto split: list.splits if_splits)

lemma join_Cons_Cons: "join sep ((a # x) # xs) = a # join sep (x # xs)"
  by (cases xs) simp_all

lemma join_split: "join sep (split sep s) = s"
  by (induction s) (auto split: list.splits simp: split_nonempty join_Cons_Cons)

lemma upt_add_Suc: "[b..<Suc (b + n)] = b # [Suc b..<Suc (b + n)]"
  using upt_conv_Cons [of b "Suc (b + n)"] by simp

lemma session_run_ok:
  "faults w (calls w) = None \<Longrightarrow>
   session_run s w = (Inr (), (tick (Run s) w)\<lparr>graph := exec_stmt s (graph w)\<rparr>)"
  by (simp add: session_run_def attempt_def)

lemma session_run_fail:
  "faults w (calls w) = Some e \<Longrightarrow> session_run s w = (Inl e, tick (Run s) w)"
  by (simp add: session_run_def attempt_def)

lemma run_statements_ok:
  assumes "\<forall>i<length ss. faults w (calls w + i) = None"
  shows "fst (run_statements n (zip [b..<b + length ss] ss) w) = Inr () \<and>
         trace (snd (run_statements n (zip [b..<b + length ss] ss) w)) = trace w @ script_calls ss \<and>
         out (snd (run_statements n (zip [b..<b + length ss] ss) w)) =
           out w @ map (executed_line n) [b..<b + length ss] \<and>
         schema (graph (snd (run_statements n (zip [b..<b + length ss] ss) w))) =
           schema (graph w) @ ss"
  using assms
proof (induction ss arbitrary: b w)
  case Nil
  then show ?case by (simp add: script_calls_def)
next
  case (Cons s ss)
  let ?w = "print (executed_line n b) ((tick (Run (Script s)) w)\<lparr>graph := exec_stmt (Script s) (graph w)\<rparr>)"
  from Cons.prems have f0: "faults w (calls w) = None" by force
  from Cons.prems have "\<forall>i<length ss. faults ?w (calls ?w + i) = None" by force
  from Cons.IH [OF this, of "Suc b"] f0 show ?case
    by (simp add: upt_add_Suc session_run_ok script_calls_def executed_line_def del: upt_Suc)
qed

lemma run_statements_fail:
  assumes "k < length ss"
    and "\<forall>i<k. faults w (calls w + i) = None"
    and "faults w (calls w + k) = Some e"
  shows "fst (run_statements n (zip [b..<b + length ss] ss) w) = Inl e \<and>
         trace (snd (run_statements n (zip [b..<b + length ss] ss) w)) =
           trace w @ script_calls (take k ss) @ [(Run (Script (ss ! k)), Some e)] \<and>
         out (snd (run_statements n (zip [b..<b + length ss] ss) w)) =
           out w @ map (executed_line n) [b..<b + k]
             @ [''  x Error in statement '' @ show_nat (b + k) @ '': '' @ str_exn e] \<and>
         schema (graph (snd (run_statements n (zip [b..<b + length ss] ss) w))) =
           schema (graph w) @ take k ss"
  using assms
proof (induction k arbitrary: ss b w)
  case 0
  then obtain s ss' where ss: "ss = s # ss'" by (cases ss) auto
  from 0 show ?case
    by (simp add: ss upt_add_Suc session_run_fail script_calls_def del: upt_Suc)
next
  case (Suc k)
  then obtain s ss' where ss: "ss = s # ss'" by (cases ss) auto
  let ?w = "print (executed_line n b) ((tick (Run (Script s)) w)\<lparr>graph := exec_stmt (Script s) (graph w)\<rparr>)"
  from Suc.prems have f0: "faults w (calls w) = None" by force
  from Suc.prems ss have "k < length ss'" by simp
  moreover from Suc.prems have "\<forall>i<k. faults ?w (calls ?w + i) = None" by force
  moreover from Suc.prems have "faults ?w (calls ?w + k) = Some e" by simp
  ultimately have "fst (run_statements n (zip [Suc b..<Suc b + length ss'] ss') ?w) = Inl e \<and>
         trace (snd (run_statements n (zip [Suc b..<Suc b + length ss'] ss') ?w)) =
           trace ?w @ script_calls (take k ss') @ [(Run (Script (ss' ! k)), Some e)] \<and>
         out (snd (run_statements n (zip [Suc b..<Suc b + length ss'] ss') ?w)) =
           out ?w @ map (executed_line n) [Suc b..<Suc b + k]
             @ [''  x Error in statement '' @ show_nat (Suc b + k) @ '': '' @ str_exn e] \<and>
         schema (graph (snd (run_statements n (zip [Suc b..<Suc b + length ss'] ss') ?w))) =
           schema (graph ?w) @ take k ss'"
    by (rule Suc.IH)
  with f0 show ?case
    by (simp add: ss upt_add_Suc session_run_ok script_calls_def executed_line_def del: upt_Suc)
qed

lemma statements_of_ab: "statements_of ''A; B;'' = [''A'', ''B'']"
  by (simp add: statements_of_def strip_def is_space_def)

lemma statements_of_c: "statements_of ''C'' = [''C'']"
  by (simp add: statements_of_def strip_def is_space_def)

lemma run_cypher_file_ok:
  assumes "schema_file w = Some content"
    and "\<forall>i<length (statements_of content). faults w (calls w + i) = None"
  shows "fst (run_cypher_file w) = Inr () \<and>
         trace (snd (run_cypher_file w)) =
           trace w @ (Open Session, None) # script_calls (statements_of content)
             @ [(Close Session, None)] \<and>
         schema (graph (snd (run_cypher_file w))) = schema (graph w) @ statements_of content"
proof -
  let ?ss = "statements_of content"
  let ?w = "emit (Open Session) (print ''Executing Cypher file: queries.cypher'' w)"
  from assms(2) have "\<forall>i<length ?ss. faults ?w (calls ?w + i) = None" by simp
  from run_statements_ok [OF this, of "length ?ss" "Suc 0"] assms(1) show ?thesis
    by (simp add: run_cypher_file_def with_handle_def split_beta Let_def del: upt_Suc)
qed

lemma run_cypher_file_fail:
  assumes "schema_file w = Some content"
    and "k < length (statements_of content)"
    and "\<forall>i<k. faults w (calls w + i) = None"
    and "faults w (calls w + k) = Some e"
  shows "fst (run_cypher_file w) = Inl e \<and>
         trace (snd (run_cypher_file w)) =
           trace w @ (Open Session, None) # script_calls (take k (statements_of content))
             @ [(Run (Script (statements_of content ! k)), Some e), (Close Session, None)] \<and>
         last (out (snd (run_cypher_file w))) =
           ''  x Error in statement '' @ show_nat (k + 1) @ '': '' @ str_exn e \<and>
         schema (graph (snd (run_cypher_file w))) =
           schema (graph w) @ take k (statements_of content)"
proof -
  let ?ss = "statements_of content"
  let ?w = "emit (Open Session) (print ''Executing Cypher file: queries.cypher'' w)"
  from assms(3) have "\<forall>i<k. faults ?w (calls ?w + i) = None" by simp
  moreover from assms(4) have "faults ?w (calls ?w + k) = Some e" by simp
  ultimately show ?thesis
    using run_statements_fail [OF assms(2), of ?w e "length ?ss" "Suc 0"] assms(1)
    by (simp add: run_cypher_file_def with_handle_def split_beta Let_def del: upt_Suc)
qed

text \<open>
  C6.  For every content of the schema script, when no statement fails,
  \<^verbatim>\<open>run_cypher_file\<close> opens one session, runs in it exactly the non-empty trimmed
  segments of the content split at \<open>;\<close>, in file order, closes the session and returns;
  the store has then applied these statements in that order.
\<close>

theorem schema_script_statements:
  "schema_file w = Some content \<and>
   (\<forall>i<length (spec_statements content). faults w (calls w + i) = None) \<longrightarrow>
   fst (run_cypher_file w) = Inr () \<and>
   run_events run_cypher_file w =
     (Open Session, None) # script_calls (spec_statements content) @ [(Close Session, None)] \<and>
   schema (graph (snd (run_cypher_file w))) = schema (graph w) @ spec_statements content"
  using run_cypher_file_ok [of w content]
  by (simp add: statements_of_spec run_events_def)

text \<open>The theorem on the script \<^verbatim>\<open>A; B;\<close> with a store that accepts every statement.\<close>

theorem schema_script_statements_witness:
  "schema_file script_ab_ok = Some ''A; B;'' \<and>
   faults script_ab_ok (calls script_ab_ok + 0) = None \<and>
   faults script_ab_ok (calls script_ab_ok + 1) = None \<and>
   spec_statements ''A; B;'' = [''A'', ''B''] \<and>
   fst (run_cypher_file script_ab_ok) = Inr () \<and>
   run_events run_cypher_file script_ab_ok =
     [(Open Session, None), (Run (Script ''A''), None), (Run (Script ''B''), None),
      (Close Session, None)] \<and>
   schema (graph (snd (run_cypher_file script_ab_ok))) = [''A'', ''B'']"
  using schema_script_statements [of script_ab_ok "''A; B;''"] statements_of_ab
  by (simp add: statements_of_spec script_ab_ok_def script_calls_def empty_graph_def)

text \<open>
  C4 as stated fails: the exception raised is the store's own, unchanged.  The script
  \<^verbatim>\<open>A; B;\<close> failing at its second statement \<^verbatim>\<open>B\<close> and the script \<^verbatim>\<open>C\<close> failing at
  its first statement raise the same exception, which therefore identifies neither the
  index nor the text of the statement.
\<close>

theorem schema_script_error_counterexample:
  "fst (run_cypher_file script_ab_fails_second) = Inl (DriverError ''boom'') \<and>
   fst (run_cypher_file script_c_fails_first) = Inl (DriverError ''boom'') \<and>
   run_events run_cypher_file script_ab_fails_second =
     [(Open Session, None), (Run (Script ''A''), None),
      (Run (Script ''B''), Some (DriverError ''boom'')), (Close Session, None)] \<and>
   run_events run_cypher_file script_c_fails_first =
     [(Open Session, None), (Run (Script ''C''), Some (DriverError ''boom'')),
      (Close Session, None)]"
  using run_cypher_file_fail [of script_ab_fails_second "''A; B;''" 1 "DriverError ''boom''"]
    run_cypher_file_fail [of script_c_fails_first "''C''" 0 "DriverError ''boom''"]
  by (simp add: script_ab_fails_second_def script_c_fails_first_def statements_of_ab
        statements_of_c script_calls_def run_events_def)

text \<open>
  C4, amended.  When statement \<open>k + 1\<close> of the schema script is the first to fail, with
  exception \<open>e\<close>, \<^verbatim>\<open>run_cypher_file\<close> runs no further statement, closes the session and
  raises \<open>e\<close> itself; the last line it prints names the 1-based index \<open>k + 1\<close> and the
  message of \<open>e\<close>.  The statements before it stay applied.
\<close>

theorem schema_script_failure:
  "schema_file w = Some content \<and> k < length (statements_of content) \<and>
   (\<forall>i<k. faults w (calls w + i) = None) \<and> faults w (calls w + k) = Some e \<longrightarrow>
   fst (run_cypher_file w) = Inl e \<and>
   run_events run_cypher_file w =
     (Open Session, None) # script_calls (take k (statements_of content))
       @ [(Run (Script (statements_of content ! k)), Some e), (Close Session, None)] \<and>
   last (out (snd (run_cypher_file w))) =
     ''  x Error in statement '' @ show_nat (k + 1) @ '': '' @ str_exn e \<and>
   schema (graph (snd (run_cypher_file w))) = schema (graph w) @ take k (statements_of content)"
  using run_cypher_file_fail [of w content k e]
  by (simp add: run_events_def)

text \<open>The theorem on the script \<^verbatim>\<open>A; B;\<close> whose second statement fails.\<close>

theorem schema_script_failure_witness:
  "schema_file script_ab_fails_second = Some ''A; B;'' \<and>
   1 < length (statements_of ''A; B;'') \<and>
   faults script_ab_fails_second (calls script_ab_fails_second + 0) = None \<and>
   faults script_ab_fails_second (calls script_ab_fails_second + 1) = Some (DriverError ''boom'') \<and>
   fst (run_cypher_file script_ab_fails_second) = Inl (DriverError ''boom'') \<and>
   run_events run_cypher_file script_ab_fails_second =
     [(Open Session, None), (Run (Script ''A''), None),
      (Run (Script ''B''), Some (DriverError ''boom'')), (Close Session, None)] \<and>
   last (out (snd (run_cypher_file script_ab_fails_second))) = ''  x Error in statement 2: boom'' \<and>
   schema (graph (snd (run_cypher_file script_ab_fails_second))) = [''A'']"
  using schema_script_failure [of script_ab_fails_second "''A; B;''" 1 "DriverError ''boom''"]
  by (simp add: script_ab_fails_second_def statements_of_ab script_calls_def empty_graph_def
        show_nat_digit digit_def)

section \<open>Properties of the calls of a run\<close>

lemma emitsI: "(\<And>w. \<exists>es. trace (snd (m w)) = trace w @ es \<and> P es) \<Longrightarrow> emits m P"
  by (simp add: emits_def)

lemma emitsD: "emits m P \<Longrightarrow> \<exists>es. trace (snd (m w)) = trace w @ es \<and> P es"
  by (simp add: emits_def)

lemma emits_run_events: "emits m P \<Longrightarrow> P (run_events m w)"
  by (auto simp: emits_def run_events_def dest!: spec [of _ w])

lemma monoidal_Nil: "monoidal P \<Longrightarrow> P []"
  by (simp add: monoidal_def)

lemma monoidal_append: "monoidal P \<Longrightarrow> P a \<Longrightarrow> P b \<Longrightarrow> P (a @ b)"
  by (simp add: monoidal_def)

lemma monoidal_Cons: "monoidal P \<Longrightarrow> P [x] \<Longrightarrow> P xs \<Longrightarrow> P (x # xs)"
  using monoidal_append [of P "[x]" xs] by simp

lemma monoidal_2: "monoidal P \<Longrightarrow> P [x] \<Longrightarrow> P [y] \<Longrightarrow> P [x, y]"
  using monoidal_append [of P "[x]" "[y]"] by simp

lemma emits_step: "monoidal P \<Longrightarrow> (\<And>w. trace (f w) = trace w) \<Longrightarrow> emits (step f) P"
  by (simp add: emits_def step_def monoidal_Nil)

lemma emits_print: "monoidal P \<Longrightarrow> emits (step (print s)) P"
  by (rule emits_step) simp_all

lemma emits_print_all: "monoidal P \<Longrightarrow> emits (step (print_all ls)) P"
  by (rule emits_step) simp_all


lemma emits_ret: "monoidal P \<Longrightarrow> emits (ret x) P"
  by (simp add: emits_def ret_def monoidal_Nil)

lemma emits_bind:
  assumes m: "emits m P" and k: "\<And>x. emits (k x) Q"
    and stop: "\<And>a. P a \<Longrightarrow> R a" and go: "\<And>a b. P a \<Longrightarrow> Q b \<Longrightarrow> R (a @ b)"
  shows "emits (bind m k) R"
proof (rule emitsI)
  fix w
  from emitsD [OF m, of w] obtain a where a: "trace (snd (m w)) = trace w @ a" "P a"
    by blast
  show "\<exists>es. trace (snd (bind m k w)) = trace w @ es \<and> R es"
  proof (cases "fst (m w)")
    case (Inl e)
    then have "bind m k w = (Inl e, snd (m w))"
      by (simp add: bind_def split_beta)
    with a stop show ?thesis by simp
  next
    case (Inr x)
    then have eq: "bind m k w = k x (snd (m w))"
      by (simp add: bind_def split_beta)
    from emitsD [OF k, of x "snd (m w)"] obtain b where
      "trace (snd (k x (snd (m w)))) = trace (snd (m w)) @ b" "Q b" by blast
    with a go [of a b] eq show ?thesis by simp
  qed
qed

lemma emits_bind_mon:
  "monoidal P \<Longrightarrow> emits m P \<Longrightarrow> (\<And>x. emits (k x) P) \<Longrightarrow> emits (bind m k) P"
  by (rule emits_bind [where P = P and Q = P]) (auto intro: monoidal_append)

lemma emits_for_each:
  assumes mon: "monoidal P" and f: "\<And>x. emits (f x) P"
  shows "emits (for_each f xs) P"
proof (induction xs)
  case Nil
  from mon show ?case by (simp add: emits_def monoidal_Nil)
next
  case (Cons x xs)
  have "for_each f (x # xs) = bind (f x) (\<lambda>u. for_each f xs)"
    by (rule ext) (simp add: bind_def split: prod.splits sum.splits)
  with emits_bind_mon [OF mon f [of x], of "\<lambda>u. for_each f xs"] Cons show ?case
    by simp
qed

lemma emits_with_handle:
  assumes "emits body P" and "\<And>a. P a \<Longrightarrow> R ((Open h, None) # a @ [(Close h, None)])"
  shows "emits (with_handle h body) R"
proof (rule emitsI)
  fix w
  from emitsD [OF assms(1), of "emit (Open h) w"] obtain a where
    "trace (snd (body (emit (Open h) w))) = trace (emit (Open h) w) @ a" "P a" by blast
  with assms(2) show "\<exists>es. trace (snd (with_handle h body w)) = trace w @ es \<and> R es"
    by (simp add: with_handle_def split_beta)
qed

lemma emits_with_handle_mon:
  assumes "monoidal P" "P [(Open h, None)]" "P [(Close h, None)]" "emits body P"
  shows "emits (with_handle h body) P"
proof (rule emits_with_handle [where P = P])
  fix a
  assume "P a"
  with assms(1) have "P (a @ [(Close h, None)])" using assms(3) by (rule monoidal_append)
  with assms(1,2) show "P ((Open h, None) # a @ [(Close h, None)])" by (rule monoidal_Cons)
qed (rule assms)

lemma emits_session_run: "(\<And>r. P [(Run s, r)]) \<Longrightarrow> emits (session_run s) P"
  by (simp add: emits_def session_run_def attempt_def split: option.splits)

lemma emits_read_sql: "(\<And>r. P [(ReadSql t, r)]) \<Longrightarrow> emits (read_sql t sel) P"
  by (simp add: emits_def read_sql_def attempt_def split: option.splits)


lemma emits_run_cypher:
  "monoidal P \<Longrightarrow> P [(Open Session, None)] \<Longrightarrow> P [(Close Session, None)] \<Longrightarrow>
   (\<And>r. P [(Run s, r)]) \<Longrightarrow> emits (run_cypher s) P"
  unfolding run_cypher_def [abs_def]
  by (rule emits_with_handle_mon) (simp_all add: emits_session_run)

lemma emits_cong: "emits m P \<Longrightarrow> (\<And>w. m' w = m w) \<Longrightarrow> emits m' P"
  by (simp add: emits_def)

lemma emits_pg_attempts:
  assumes mon: "monoidal P" and c: "\<And>r. P [(Connect ProbeConn, r)]"
    and cl: "P [(Close ProbeConn, None)]" and sl: "\<And>r. P [(Sleep d, r)]"
  shows "emits (pg_attempts m d as) P"
proof (induction as)
  case Nil
  from mon show ?case by (simp add: emits_def monoidal_Nil)
next
  case (Cons a as)
  show ?case
  proof (rule emitsI)
    fix w
    show "\<exists>es. trace (snd (pg_attempts m d (a # as) w)) = trace w @ es \<and> P es"
    proof (cases "faults w (calls w)")
      case None
      have "P [(Connect ProbeConn, None), (Close ProbeConn, None)]"
        by (rule monoidal_2 [OF mon c cl])
      with None show ?thesis by (simp add: pg_attempts_ok del: pg_attempts.simps)
    next
      case (Some e)
      show ?thesis
      proof (cases "(\<exists>msg. e = OperationalError msg) \<and> int a < m - 1")
        case True
        then obtain msg where e: "e = OperationalError msg" and lt: "int a < m - 1" by blast
        show ?thesis
        proof (cases "0 \<le> d")
          case d: True
          from pg_attempts_retry [OF Some [unfolded e] lt d] obtain s where
            step: "pg_attempts m d (a # as) w =
                   pg_attempts m d as (emit (Sleep d) (print s (tick (Connect ProbeConn) w)))"
            by blast
          let ?w = "emit (Sleep d) (print s (tick (Connect ProbeConn) w))"
          from emitsD [OF Cons, of ?w] obtain es where
            es: "trace (snd (pg_attempts m d as ?w)) = trace ?w @ es" "P es" by blast
          have "P ((Connect ProbeConn, Some e) # (Sleep d, None) # es)"
            by (rule monoidal_Cons [OF mon c monoidal_Cons [OF mon sl es(2)]])
          with es(1) Some show ?thesis by (simp add: step del: pg_attempts.simps)
        next
          case False
          then have d: "d < 0" by simp
          have "P [(Connect ProbeConn, Some e),
                   (Sleep d, Some (ValueError ''sleep length must be non-negative''))]"
            by (rule monoidal_2 [OF mon c sl])
          with pg_attempts_negative [OF Some [unfolded e] lt d, of as] e show ?thesis
            by (simp add: pg_probe_def del: pg_attempts.simps)
        qed
      next
        case False
        with Some have "trace (snd (pg_attempts m d (a # as) w)) = trace w @ [(Connect ProbeConn, Some e)]"
          by (cases e) (simp_all add: attempt_def)
        with c show ?thesis by blast
      qed
    qed
  qed
qed

lemma emits_wait_for_postgres:
  assumes "monoidal P" "\<And>r. P [(Connect ProbeConn, r)]" "P [(Close ProbeConn, None)]"
    "\<And>r. P [(Sleep d, r)]"
  shows "emits (wait_for_postgres m d) P"
proof (rule emitsI)
  fix w
  from emitsD [OF emits_pg_attempts [OF assms], of m "[0..<nat m]"
      "print ''Waiting for PostgreSQL to be ready...'' w"]
  show "\<exists>es. trace (snd (wait_for_postgres m d w)) = trace w @ es \<and> P es"
    by (simp add: wait_for_postgres_def)
qed

lemma emits_neo4j_attempts:
  assumes mon: "monoidal P" and op: "P [(Open ProbeDriver, None)]"
    and probe: "emits (with_handle Session (session_run Return1)) P"
    and cl: "P [(Close ProbeDriver, None)]" and sl: "\<And>r. P [(Sleep d, r)]"
  shows "emits (neo4j_attempts m d as) P"
proof (induction as)
  case Nil
  from mon show ?case by (simp add: emits_def monoidal_Nil)
next
  case (Cons a as)
  show ?case
  proof (rule emitsI)
    fix w
    let ?r = "with_handle Session (session_run Return1) (emit (Open ProbeDriver) w)"
    from emitsD [OF probe, of "emit (Open ProbeDriver) w"] obtain ps where
      ps: "trace (snd ?r) = trace w @ (Open ProbeDriver, None) # ps" "P ps" by auto
    have pre: "P ((Open ProbeDriver, None) # ps)"
      by (rule monoidal_Cons [OF mon op ps(2)])
    show "\<exists>es. trace (snd (neo4j_attempts m d (a # as) w)) = trace w @ es \<and> P es"
    proof (cases "fst ?r")
      case (Inr u)
      have "P (((Open ProbeDriver, None) # ps) @ [(Close ProbeDriver, None)])"
        by (rule monoidal_append [OF mon pre cl])
      with Inr ps(1) show ?thesis by (simp add: split_beta)
    next
      case (Inl e)
      show ?thesis
      proof (cases "int a < m - 1")
        case True
        let ?p = "print (''  Attempt '' @ show_int (int a + 1) @ ''/'' @ show_int m
                         @ '': Neo4j not ready yet, retrying in '' @ show_int d
                         @ ''s...'') (snd ?r)"
        show ?thesis
        proof (cases "0 \<le> d")
          case d: True
          let ?w = "emit (Sleep d) ?p"
          from emitsD [OF Cons, of ?w] obtain es where
            es: "trace (snd (neo4j_attempts m d as ?w)) = trace ?w @ es" "P es" by blast
          have "P (((Open ProbeDriver, None) # ps) @ (Sleep d, None) # es)"
            by (rule monoidal_append [OF mon pre monoidal_Cons [OF mon sl es(2)]])
          with Inl True ps(1) es(1) d show ?thesis by (simp add: split_beta sleep_ok)
        next
          case False
          then have d: "d < 0" by simp
          have "P (((Open ProbeDriver, None) # ps)
                   @ [(Sleep d, Some (ValueError ''sleep length must be non-negative''))])"
            by (rule monoidal_append [OF mon pre sl])
          with Inl True ps(1) d show ?thesis by (simp add: split_beta sleep_negative)
        qed
      next
        case False
        with Inl ps(1) pre show ?thesis by (simp add: split_beta)
      qed
    qed
  qed
qed

lemma emits_wait_for_neo4j:
  assumes "monoidal P" "P [(Open ProbeDriver, None)]"
    "emits (with_handle Session (session_run Return1)) P"
    "P [(Close ProbeDriver, None)]" "\<And>r. P [(Sleep d, r)]"
  shows "emits (wait_for_neo4j m d) P"
proof (rule emitsI)
  fix w
  from emitsD [OF emits_neo4j_attempts [OF assms], of m "[0..<nat m]"
      "print ''Waiting for Neo4j to be ready...'' w"]
  show "\<exists>es. trace (snd (wait_for_neo4j m d w)) = trace w @ es \<and> P es"
    by (simp add: wait_for_neo4j_def)
qed

lemma emits_run_statements:
  assumes mon: "monoidal P" and run: "\<And>s r. P [(Run (Script s), r)]"
  shows "emits (run_statements n iss) P"
proof (induction iss)
  case Nil
  from mon show ?case by (simp add: emits_def monoidal_Nil)
next
  case (Cons x iss)
  obtain i s where x: "x = (i, s)" by (cases x)
  show ?case
  proof (rule emitsI)
    fix w
    show "\<exists>es. trace (snd (run_statements n (x # iss) w)) = trace w @ es \<and> P es"
    proof (cases "faults w (calls w)")
      case None
      let ?w = "print (''  + Executed statement '' @ show_nat i @ ''/'' @ show_nat n)
                  ((tick (Run (Script s)) w)\<lparr>graph := exec_stmt (Script s) (graph w)\<rparr>)"
      from emitsD [OF Cons, of ?w] obtain es where
        es: "trace (snd (run_statements n iss ?w)) = trace ?w @ es" "P es" by blast
      have "P ((Run (Script s), None) # es)"
        by (rule monoidal_Cons [OF mon run es(2)])
      with None es(1) show ?thesis by (simp add: x session_run_ok)
    next
      case (Some e)
      with run [of s "Some e"] show ?thesis by (simp add: x session_run_fail)
    qed
  qed
qed

lemma emits_run_cypher_file:
  assumes mon: "monoidal P" and run: "\<And>s r. P [(Run (Script s), r)]"
    and sess: "\<And>body :: world \<Rightarrow> (exn + unit) \<times> world.
                 emits body P \<Longrightarrow> emits (with_handle Session body) P"
  shows "emits run_cypher_file P"
proof (rule emitsI)
  fix w
  show "\<exists>es. trace (snd (run_cypher_file w)) = trace w @ es \<and> P es"
  proof (cases "schema_file w")
    case None
    with mon show ?thesis by (simp add: run_cypher_file_def monoidal_Nil)
  next
    case (Some content)
    let ?ss = "statements_of content"
    have "emits (with_handle Session
                   (run_statements (length ?ss) (zip [1..<Suc (length ?ss)] ?ss))) P"
      by (rule sess [OF emits_run_statements [OF mon run]])
    from emitsD [OF this, of "print ''Executing Cypher file: queries.cypher'' w"]
    show ?thesis using Some by (simp add: run_cypher_file_def Let_def del: upt_Suc)
  qed
qed

lemma emits_etl_schema:
  assumes mon: "monoidal P" and run: "\<And>s r. P [(Run (Script s), r)]"
    and sess: "\<And>body :: world \<Rightarrow> (exn + unit) \<times> world.
                 emits body P \<Longrightarrow> emits (with_handle Session body) P"
  shows "emits etl_schema P"
proof (rule emitsI)
  fix w
  have a: "emits (bind (step (print (nl @ ''[2/6] Setting up Neo4j schema...''))) (\<lambda>u. run_cypher_file)) P"
    by (rule emits_bind_mon [OF mon emits_print [OF mon] emits_run_cypher_file [OF mon run sess]])
  have b: "emits (step (print (nl @ ''[2/6] No queries.cypher file found, skipping schema setup''))) P"
    by (rule emits_print [OF mon])
  from emitsD [OF a, of w] emitsD [OF b, of w]
  show "\<exists>es. trace (snd (etl_schema w)) = trace w @ es \<and> P es"
    by (simp add: etl_schema_def)
qed

lemma emits_etl_categories:
  assumes mon: "monoidal P" and rd: "\<And>r. P [(ReadSql T_categories, r)]"
    and run: "\<And>row. emits (run_cypher (stmt_category row)) P"
  shows "emits etl_categories P"
  unfolding etl_categories_def
  by (intro emits_bind_mon emits_print emits_read_sql emits_for_each emits_ret mon rd run)

lemma emits_etl_products:
  assumes mon: "monoidal P" and rd: "\<And>r. P [(ReadSql T_products, r)]"
    and run: "\<And>row. emits (run_cypher (stmt_product row)) P"
  shows "emits etl_products P"
  unfolding etl_products_def
  by (intro emits_bind_mon emits_print emits_read_sql emits_for_each emits_ret mon rd run)

lemma emits_etl_customers:
  assumes mon: "monoidal P" and rd: "\<And>r. P [(ReadSql T_customers, r)]"
    and run: "\<And>row. emits (run_cypher (stmt_customer row)) P"
  shows "emits etl_customers P"
  unfolding etl_customers_def
  by (intro emits_bind_mon emits_print emits_read_sql emits_for_each emits_ret mon rd run)

lemma emits_etl_orders:
  assumes mon: "monoidal P" and rd: "\<And>r. P [(ReadSql T_orders, r)]"
    and run: "\<And>row. emits (run_cypher (stmt_order IsoOf row)) P"
  shows "emits etl_orders P"
  unfolding etl_orders_def
  by (intro emits_bind_mon emits_print emits_read_sql emits_for_each emits_ret mon rd run)

lemma emits_etl_order_items:
  assumes mon: "monoidal P" and rd: "\<And>r. P [(ReadSql T_order_items, r)]"
    and run: "\<And>row. emits (run_cypher (stmt_order_item row)) P"
  shows "emits etl_order_items P"
  unfolding etl_order_items_def
  by (intro emits_bind_mon emits_print emits_read_sql emits_for_each emits_ret mon rd run)

lemma emits_etl_events:
  assumes mon: "monoidal P" and rd: "\<And>r. P [(ReadSql T_events, r)]"
    and run: "\<And>row. emits (run_cypher (stmt_event IsoOf row)) P"
  shows "emits etl_events P"
  unfolding etl_events_def
  by (intro emits_bind_mon emits_print emits_read_sql emits_for_each emits_ret mon rd run)

lemma emits_etl_try:
  assumes mon: "monoidal P" and rd: "\<And>t r. P [(ReadSql t, r)]"
    and run: "\<And>s r. P [(Run s, r)]"
    and sess: "\<And>body :: world \<Rightarrow> (exn + unit) \<times> world.
                 emits body P \<Longrightarrow> emits (with_handle Session body) P"
  shows "emits etl_try P"
proof -
  have rc: "\<And>s. emits (run_cypher s) P"
    unfolding run_cypher_def [abs_def] by (rule sess) (rule emits_session_run, rule run)
  show ?thesis
    unfolding etl_try_def etl_load_def
    by (intro emits_bind_mon emits_print emits_print_all emits_etl_schema emits_etl_categories
          emits_etl_products emits_etl_customers emits_etl_orders emits_etl_order_items
          emits_etl_events mon rd rc run sess)
qed

lemma monoidal_balanced: "monoidal (balanced h)"
  by (simp add: monoidal_def balanced_def opened_def closed_def)

lemma balanced_single:
  "c \<noteq> Close h \<Longrightarrow> (r = None \<longrightarrow> c \<noteq> Open h \<and> c \<noteq> Connect h) \<Longrightarrow> balanced h [(c, r)]"
  by (auto simp: balanced_def opened_def closed_def)

lemma balanced_with_handle:
  assumes "emits body (balanced h')"
  shows "emits (with_handle h body) (balanced h')"
  using assms
  by (rule emits_with_handle) (simp add: balanced_def opened_def closed_def)

lemma balanced_etl_try: "emits etl_try (balanced h)"
  by (rule emits_etl_try [OF monoidal_balanced])
    (simp_all add: balanced_single balanced_with_handle)

lemma balanced_wait_for_postgres: "h \<noteq> ProbeConn \<Longrightarrow> emits (wait_for_postgres m d) (balanced h)"
  by (rule emits_wait_for_postgres [OF monoidal_balanced]) (simp_all add: balanced_single)

lemma balanced_wait_for_neo4j: "h \<noteq> ProbeDriver \<Longrightarrow> emits (wait_for_neo4j m d) (balanced h)"
  by (rule emits_wait_for_neo4j [OF monoidal_balanced])
    (simp_all add: balanced_single balanced_with_handle emits_session_run)

lemma balanced_etl_guarded:
  assumes "balanced h pre" "h \<noteq> ProbeConn" "h \<noteq> ProbeDriver"
  shows "\<exists>es. trace (snd (etl_guarded w)) = trace w @ es \<and>
              balanced h ((Connect EtlConn, None) # (Open EtlDriver, None) # es)"
proof -
  from emitsD [OF balanced_etl_try [of h], of w] obtain a where
    a: "trace (snd (etl_try w)) = trace w @ a" "balanced h a" by blast
  obtain r w' where r: "etl_try w = (r, w')" by (cases "etl_try w")
  have "trace (snd (etl_guarded w)) = trace w @ a @ [(Close EtlConn, None), (Close EtlDriver, None)]"
    using a(1) by (cases r) (simp_all add: r etl_guarded_def etl_finally_def)
  moreover have "balanced h ((Connect EtlConn, None) # (Open EtlDriver, None) # a
                   @ [(Close EtlConn, None), (Close EtlDriver, None)])"
    using a(2) by (auto simp: balanced_def opened_def closed_def)
  ultimately show ?thesis by simp
qed

lemma balanced_etl_connected:
  assumes h: "h \<noteq> ProbeConn" "h \<noteq> ProbeDriver"
  shows "emits (bind (connect EtlConn) (\<lambda>u. bind (step (emit (Open EtlDriver))) (\<lambda>u. etl_guarded)))
           (balanced h)"
proof (rule emitsI)
  fix w
  let ?m = "bind (connect EtlConn) (\<lambda>u. bind (step (emit (Open EtlDriver))) (\<lambda>u. etl_guarded))"
  show "\<exists>es. trace (snd (?m w)) = trace w @ es \<and> balanced h es"
  proof (cases "faults w (calls w)")
    case (Some e)
    then have "trace (snd (?m w)) = trace w @ [(Connect EtlConn, Some e)]"
      by (simp add: bind_def connect_def attempt_def)
    moreover have "balanced h [(Connect EtlConn, Some e)]"
      by (simp add: balanced_single)
    ultimately show ?thesis by blast
  next
    case None
    let ?w = "emit (Open EtlDriver) (tick (Connect EtlConn) w)"
    from None have eq: "?m w = etl_guarded ?w"
      by (simp add: bind_def connect_def attempt_def step_def)
    have "balanced h []" by (simp add: monoidal_Nil monoidal_balanced)
    from balanced_etl_guarded [OF this h, of ?w] obtain es where
      "trace (snd (etl_guarded ?w)) = trace ?w @ es"
      "balanced h ((Connect EtlConn, None) # (Open EtlDriver, None) # es)" by blast
    with eq None show ?thesis by simp
  qed
qed

lemma bind_assoc: "bind (bind m k) h = bind m (\<lambda>x. bind (k x) h)"
  by (rule ext) (simp add: bind_def split: prod.splits sum.splits)

lemma etl_nested:
  "etl =
     bind (wait_for_postgres 30 2) (\<lambda>u.
     bind (wait_for_neo4j 30 2) (\<lambda>u.
     bind (step (print_all [nl @ replicate 60 CHR ''='',
                            ''Starting ETL Process: PostgreSQL -> Neo4j'',
                            replicate 60 CHR ''='' @ nl,
                            ''Connecting to databases...''])) (\<lambda>u.
     bind (connect EtlConn) (\<lambda>u.
     bind (step (emit (Open EtlDriver))) (\<lambda>u.
     etl_guarded)))))"
  by (simp add: etl_def etl_connect_def bind_assoc)

lemma balanced_etl:
  assumes h: "h \<noteq> ProbeConn" "h \<noteq> ProbeDriver"
  shows "emits etl (balanced h)"
  unfolding etl_nested
  by (intro emits_bind_mon monoidal_balanced balanced_wait_for_postgres balanced_wait_for_neo4j
        emits_print_all balanced_etl_connected h)

lemma run_cypher_events:
  "run_events (run_cypher s) w =
     [(Open Session, None), (Run s, faults w (calls w)), (Close Session, None)]"
  by (simp add: run_events_def run_cypher_def with_handle_def session_run_def attempt_def
        split: option.splits)

text \<open>
  C9.  In the calls of every run of \<^verbatim>\<open>etl()\<close>, whatever fails and wherever, the
  connection \<^verbatim>\<open>pg_conn\<close>, the driver \<^verbatim>\<open>neo4j_driver\<close> and the graph sessions are closed
  as often as they are opened; and \<^verbatim>\<open>run_cypher\<close> opens a session, runs its statement
  and closes the session, whether the statement succeeds or raises.
\<close>

theorem etl_closes_what_it_opens:
  "balanced EtlConn (run_events etl w) \<and> balanced EtlDriver (run_events etl w) \<and>
   balanced Session (run_events etl w) \<and>
   run_events (run_cypher s) w' =
     [(Open Session, None), (Run s, faults w' (calls w')), (Close Session, None)]"
  by (simp add: emits_run_events balanced_etl run_cypher_events)

section \<open>Runs that complete\<close>

lemma bind_okE:
  assumes "bind m k w = (Inr y, w'')"
  obtains x w' where "m w = (Inr x, w')" "k x w' = (Inr y, w'')"
  using assms by (auto simp: bind_def split: prod.splits sum.splits)

lemma step_ok: "step f w = (Inr u, w') \<longleftrightarrow> w' = f w"
  by (auto simp: step_def)

lemma ret_ok: "ret x w = (Inr y, w') \<longleftrightarrow> y = x \<and> w' = w"
  by (auto simp: ret_def)

lemma read_sql_ok:
  "read_sql t sel w = (Inr df, w') \<longleftrightarrow>
     faults w (calls w) = None \<and> df = sel (db w) \<and> w' = tick (ReadSql t) w"
  by (auto simp: read_sql_def attempt_def split: option.splits)

lemma run_cypher_ok:
  assumes "run_cypher s w = (Inr u, w')"
  shows "graph w' = exec_stmt s (graph w)" "trace w' = trace w @ run_cypher_calls s"
    "db w' = db w" "faults w' = faults w" "schema_file w' = schema_file w"
  using assms
  by (auto simp: run_cypher_def with_handle_def session_run_def attempt_def run_cypher_calls_def
      split: option.splits)

lemma for_each_run_cypher_ok:
  assumes "for_each (\<lambda>row. run_cypher (mk row)) rows w = (Inr u, w')"
  shows "graph w' = fold exec_stmt (map mk rows) (graph w) \<and>
         trace w' = trace w @ concat (map (\<lambda>row. run_cypher_calls (mk row)) rows) \<and>
         db w' = db w \<and> faults w' = faults w \<and> schema_file w' = schema_file w"
  using assms
proof (induction rows arbitrary: w)
  case Nil
  then show ?case by simp
next
  case (Cons row rows)
  from Cons.prems obtain w1 where
    1: "run_cypher (mk row) w = (Inr (), w1)"
    and 2: "for_each (\<lambda>row. run_cypher (mk row)) rows w1 = (Inr u, w')"
    by (auto split: prod.splits sum.splits)
  from Cons.IH [OF 2] run_cypher_ok [OF 1] show ?case by simp
qed

lemma etl_categories_ok:
  assumes "etl_categories w = (Inr df, w')"
  shows "df = categories (db w) \<and>
         graph w' = fold exec_stmt (map (stmt_category) df) (graph w) \<and>
         trace w' = trace w @ stage_calls T_categories (map (stmt_category) df) \<and>
         db w' = db w \<and> faults w' = faults w \<and> schema_file w' = schema_file w"
  using assms unfolding etl_categories_def
  by (auto elim!: bind_okE simp: step_ok ret_ok read_sql_ok stage_calls_def comp_def
      dest!: for_each_run_cypher_ok)

lemma etl_products_ok:
  assumes "etl_products w = (Inr df, w')"
  shows "df = products (db w) \<and>
         graph w' = fold exec_stmt (map (stmt_product) df) (graph w) \<and>
         trace w' = trace w @ stage_calls T_products (map (stmt_product) df) \<and>
         db w' = db w \<and> faults w' = faults w \<and> schema_file w' = schema_file w"
  using assms unfolding etl_products_def
  by (auto elim!: bind_okE simp: step_ok ret_ok read_sql_ok stage_calls_def comp_def
      dest!: for_each_run_cypher_ok)

lemma etl_customers_ok:
  assumes "etl_customers w = (Inr df, w')"
  shows "df = customers (db w) \<and>
         graph w' = fold exec_stmt (map (stmt_customer) df) (graph w) \<and>
         trace w' = trace w @ stage_calls T_customers (map (stmt_customer) df) \<and>
         db w' = db w \<and> faults w' = faults w \<and> schema_file w' = schema_file w"
  using assms unfolding etl_customers_def
  by (auto elim!: bind_okE simp: step_ok ret_ok read_sql_ok stage_calls_def comp_def
      dest!: for_each_run_cypher_ok)

lemma etl_orders_ok:
  assumes "etl_orders w = (Inr df, w')"
  shows "df = orders (db w) \<and>
         graph w' = fold exec_stmt (map (stmt_order IsoOf) df) (graph w) \<and>
         trace w' = trace w @ stage_calls T_orders (map (stmt_order IsoOf) df) \<and>
         db w' = db w \<and> faults w' = faults w \<and> schema_file w' = schema_file w"
  using assms unfolding etl_orders_def
  by (auto elim!: bind_okE simp: step_ok ret_ok read_sql_ok stage_calls_def comp_def
      dest!: for_each_run_cypher_ok)

lemma etl_order_items_ok:
  assumes "etl_order_items w = (Inr df, w')"
  shows "df = order_items (db w) \<and>
         graph w' = fold exec_stmt (map (stmt_order_item) df) (graph w) \<and>
         trace w' = trace w @ stage_calls T_order_items (map (stmt_order_item) df) \<and>
         db w' = db w \<and> faults w' = faults w \<and> schema_file w' = schema_file w"
  using assms unfolding etl_order_items_def
  by (auto elim!: bind_okE simp: step_ok ret_ok read_sql_ok stage_calls_def comp_def
      dest!: for_each_run_cypher_ok)

lemma etl_events_ok:
  assumes "etl_events w = (Inr df, w')"
  shows "df = events (db w) \<and>
         graph w' = fold exec_stmt (map (stmt_event IsoOf) df) (graph w) \<and>
         trace w' = trace w @ stage_calls T_events (map (stmt_event IsoOf) df) \<and>
         db w' = db w \<and> faults w' = faults w \<and> schema_file w' = schema_file w"
  using assms unfolding etl_events_def
  by (auto elim!: bind_okE simp: step_ok ret_ok read_sql_ok stage_calls_def comp_def
      dest!: for_each_run_cypher_ok)

lemma run_statements_okD:
  assumes "run_statements n iss w = (Inr u, w')"
  shows "graph w' = (graph w)\<lparr>schema := schema (graph w) @ map snd iss\<rparr> \<and>
         trace w' = trace w @ script_calls (map snd iss) \<and>
         db w' = db w \<and> faults w' = faults w \<and> schema_file w' = schema_file w"
  using assms
proof (induction iss arbitrary: w)
  case Nil
  then show ?case by (simp add: script_calls_def)
next
  case (Cons x iss)
  obtain i s where x: "x = (i, s)" by (cases x)
  from Cons.prems have f: "faults w (calls w) = None"
    by (cases "faults w (calls w)") (simp_all add: x session_run_fail)
  let ?w = "print (''  + Executed statement '' @ show_nat i @ ''/'' @ show_nat n)
              ((tick (Run (Script s)) w)\<lparr>graph := exec_stmt (Script s) (graph w)\<rparr>)"
  from Cons.prems f have "run_statements n iss ?w = (Inr u, w')"
    by (simp add: x session_run_ok)
  from Cons.IH [OF this] f show ?case
    by (simp add: x script_calls_def)
qed

lemma run_cypher_file_okD:
  assumes "run_cypher_file w = (Inr u, w')"
  shows "graph w' = (graph w)\<lparr>schema := schema (graph w) @ script_statements w\<rparr> \<and>
         trace w' = trace w @ script_session_calls w \<and>
         db w' = db w \<and> faults w' = faults w \<and> schema_file w' = schema_file w"
proof (cases "schema_file w")
  case None
  with assms show ?thesis
    by (auto simp: run_cypher_file_def script_statements_def script_session_calls_def)
next
  case (Some content)
  let ?ss = "statements_of content"
  let ?w = "emit (Open Session) (print ''Executing Cypher file: queries.cypher'' w)"
  obtain r w1 where r: "run_statements (length ?ss) (zip [1..<Suc (length ?ss)] ?ss) ?w = (r, w1)"
    by (cases "run_statements (length ?ss) (zip [1..<Suc (length ?ss)] ?ss) ?w")
  with assms Some have "r = Inr u" and w': "w' = emit (Close Session) w1"
    by (simp_all add: run_cypher_file_def with_handle_def Let_def del: upt_Suc)
  with r have "run_statements (length ?ss) (zip [1..<Suc (length ?ss)] ?ss) ?w = (Inr u, w1)"
    by simp
  from run_statements_okD [OF this] Some w' show ?thesis
    by (simp add: script_statements_def script_session_calls_def del: upt_Suc)
qed

lemma etl_schema_ok:
  assumes "etl_schema w = (Inr u, w')"
  shows "graph w' = (graph w)\<lparr>schema := schema (graph w) @ script_statements w\<rparr> \<and>
         trace w' = trace w @ script_session_calls w \<and>
         db w' = db w \<and> faults w' = faults w \<and> schema_file w' = schema_file w"
proof (cases "schema_file w")
  case None
  with assms show ?thesis
    by (auto simp: etl_schema_def step_def script_statements_def script_session_calls_def)
next
  case (Some content)
  with assms have "run_cypher_file (print (nl @ ''[2/6] Setting up Neo4j schema...'') w) = (Inr u, w')"
    by (simp add: etl_schema_def bind_def step_def)
  from run_cypher_file_okD [OF this] show ?thesis
    by (simp add: script_statements_def script_session_calls_def)
qed

lemma fold_exec_Script:
  "fold exec_stmt (map Script ss) g = g\<lparr>schema := schema g @ ss\<rparr>"
  by (induction ss arbitrary: g) simp_all

lemma etl_try_ok:
  assumes "etl_try w = (Inr u, w')"
  shows "graph w' =
           fold exec_stmt (DetachDeleteAll # map Script (script_statements w)
                           @ etl_statements IsoOf (db w)) (graph w)"
    and "trace w' = trace w @ etl_try_calls w"
    and "\<exists>pre. out w' = pre @ summary_of (db w)"
    and "db w' = db w" and "faults w' = faults w" and "schema_file w' = schema_file w"
proof -
  from assms obtain w1 w2 w3 w4 w5 w6 w7 w8 w9 w10 c p cu os its es where
    wipe: "run_cypher DetachDeleteAll w1 = (Inr (), w2)"
    and schema: "etl_schema w3 = (Inr (), w4)"
    and cat: "etl_categories w4 = (Inr c, w5)"
    and prod: "etl_products w5 = (Inr p, w6)"
    and cust: "etl_customers w6 = (Inr cu, w7)"
    and ord: "etl_orders w7 = (Inr os, w8)"
    and item: "etl_order_items w8 = (Inr its, w9)"
    and ev: "etl_events w9 = (Inr es, w10)"
    and w1: "w1 = print (nl @ ''[1/6] Clearing existing Neo4j data...'') w"
    and w3: "w3 = print ''  + Neo4j database cleared'' w2"
    and w': "w' = print_all (summary_lines (length c) (length p) (length cu) (length os)
                               (length its) (length es)) w10"
    unfolding etl_try_def etl_load_def by (auto elim!: bind_okE simp: step_ok)
  note facts = run_cypher_ok [OF wipe] etl_schema_ok [OF schema] etl_categories_ok [OF cat]
    etl_products_ok [OF prod] etl_customers_ok [OF cust] etl_orders_ok [OF ord]
    etl_order_items_ok [OF item] etl_events_ok [OF ev]
  from facts show "db w' = db w" and "faults w' = faults w" and "schema_file w' = schema_file w"
    by (simp_all add: w1 w3 w')
  from facts show "trace w' = trace w @ etl_try_calls w"
    by (simp add: w1 w3 w' etl_try_calls_def script_session_calls_def)
  from facts show "\<exists>pre. out w' = pre @ summary_of (db w)"
    by (simp add: w1 w3 w' summary_of_def)
  from facts show "graph w' =
           fold exec_stmt (DetachDeleteAll # map Script (script_statements w)
                           @ etl_statements IsoOf (db w)) (graph w)"
    by (simp add: w1 w3 w' etl_statements_def fold_exec_Script script_statements_def)
qed

section \<open>The connect phase leaves the store and the environment alone\<close>

lemma graph_update_commute:
  "tick c (w\<lparr>graph := g\<rparr>) = (tick c w)\<lparr>graph := g\<rparr>"
  "print s (w\<lparr>graph := g\<rparr>) = (print s w)\<lparr>graph := g\<rparr>"
  "emit c (w\<lparr>graph := g\<rparr>) = (emit c w)\<lparr>graph := g\<rparr>"
  "print_all ls (w\<lparr>graph := g\<rparr>) = (print_all ls w)\<lparr>graph := g\<rparr>"
  by (simp_all add: tick_def print_def emit_def print_all_def)

lemma pg_attempts_graph:
  "pg_attempts m d as (w\<lparr>graph := g\<rparr>) =
     (fst (pg_attempts m d as w), (snd (pg_attempts m d as w))\<lparr>graph := g\<rparr>)"
proof (induction as arbitrary: w)
  case Nil
  show ?case by simp
next
  case (Cons a as)
  show ?case
  proof (cases "faults w (calls w)")
    case None
    then show ?thesis by (simp add: attempt_def graph_update_commute)
  next
    case (Some e)
    then show ?thesis
      by (cases e) (simp_all add: attempt_def graph_update_commute sleep_def Cons.IH)
  qed
qed

lemma pg_attempts_env: "same_env w (snd (pg_attempts m d as w))"
proof (induction as arbitrary: w)
  case Nil
  show ?case by (simp add: same_env_def)
next
  case (Cons a as)
  show ?case
  proof (cases "faults w (calls w)")
    case None
    then show ?thesis by (simp add: attempt_def same_env_def)
  next
    case (Some e)
    show ?thesis
    proof (cases e)
      case (OperationalError msg)
      let ?s = "''  Attempt '' @ show_int (int a + 1) @ ''/'' @ show_int m
                @ '': PostgreSQL not ready yet, retrying in '' @ show_int d @ ''s...''"
      from Cons.IH [of "emit (Sleep d) (print ?s (tick (Connect ProbeConn) w))"]
        Some OperationalError show ?thesis
        by (simp add: attempt_def same_env_def sleep_def)
    qed (use Some in \<open>simp_all add: attempt_def same_env_def\<close>)
  qed
qed

lemma neo4j_probe_graph:
  "with_handle Session (session_run Return1) (w\<lparr>graph := g\<rparr>) =
     (fst (with_handle Session (session_run Return1) w),
      (snd (with_handle Session (session_run Return1) w))\<lparr>graph := g\<rparr>)"
  by (cases "faults w (calls w)")
    (simp_all add: with_handle_def session_run_def attempt_def graph_update_commute split_beta)

lemma neo4j_probe_env:
  "same_env w (snd (with_handle Session (session_run Return1) w))"
  by (cases "faults w (calls w)")
    (simp_all add: with_handle_def session_run_def attempt_def same_env_def)

lemma neo4j_attempts_graph:
  "neo4j_attempts m d as (w\<lparr>graph := g\<rparr>) =
     (fst (neo4j_attempts m d as w), (snd (neo4j_attempts m d as w))\<lparr>graph := g\<rparr>)"
proof (induction as arbitrary: w)
  case Nil
  show ?case by simp
next
  case (Cons a as)
  let ?r = "with_handle Session (session_run Return1) (emit (Open ProbeDriver) w)"
  show ?case
    by (cases "fst ?r")
      (simp_all add: graph_update_commute neo4j_probe_graph sleep_def Cons.IH split_beta)
qed

lemma neo4j_attempts_env: "same_env w (snd (neo4j_attempts m d as w))"
proof (induction as arbitrary: w)
  case Nil
  show ?case by (simp add: same_env_def)
next
  case (Cons a as)
  let ?r = "with_handle Session (session_run Return1) (emit (Open ProbeDriver) w)"
  let ?w = "emit (Sleep d)
              (print (''  Attempt '' @ show_int (int a + 1) @ ''/'' @ show_int m
                      @ '': Neo4j not ready yet, retrying in '' @ show_int d
                      @ ''s...'') (snd ?r))"
  from Cons.IH [of ?w] neo4j_probe_env [of "emit (Open ProbeDriver) w"] show ?case
    by (cases "fst ?r") (simp_all add: same_env_def sleep_def split_beta)
qed

lemma etl_connect_graph:
  "etl_connect (w\<lparr>graph := g\<rparr>) = (fst (etl_connect w), (snd (etl_connect w))\<lparr>graph := g\<rparr>)"
proof -
  have 1: "\<And>w. wait_for_postgres 30 2 (w\<lparr>graph := g\<rparr>) =
             (fst (wait_for_postgres 30 2 w), (snd (wait_for_postgres 30 2 w))\<lparr>graph := g\<rparr>)"
    by (simp add: wait_for_postgres_def graph_update_commute pg_attempts_graph del: upt_Suc)
  have 2: "\<And>w. wait_for_neo4j 30 2 (w\<lparr>graph := g\<rparr>) =
             (fst (wait_for_neo4j 30 2 w), (snd (wait_for_neo4j 30 2 w))\<lparr>graph := g\<rparr>)"
    by (simp add: wait_for_neo4j_def graph_update_commute neo4j_attempts_graph del: upt_Suc)
  show ?thesis
    by (simp add: etl_connect_def bind_def 1 2 step_def connect_def attempt_def
        graph_update_commute split_beta split: sum.splits option.splits)
qed

lemma etl_connect_env: "same_env w (snd (etl_connect w))"
proof -
  have 1: "\<And>w. same_env w (snd (wait_for_postgres 30 2 w))"
    using pg_attempts_env by (simp add: wait_for_postgres_def same_env_def del: upt_Suc)
  have 2: "\<And>w. same_env w (snd (wait_for_neo4j 30 2 w))"
    using neo4j_attempts_env by (simp add: wait_for_neo4j_def same_env_def del: upt_Suc)
  show ?thesis
    using 1 [of w] 2 [of "snd (wait_for_postgres 30 2 w)"]
    by (simp add: etl_connect_def bind_def step_def connect_def attempt_def same_env_def
        split_beta split: sum.splits option.splits)
qed

section \<open>Runs in which no call fails\<close>

lemma succeedsI:
  "(\<And>w :: world. \<forall>n. faults w n = None \<Longrightarrow>
     (\<exists>x. fst (m w) = Inr x) \<and> (\<forall>n. faults (snd (m w)) n = None)) \<Longrightarrow> succeeds m"
  by (simp add: succeeds_def)

lemma succeedsD:
  "succeeds m \<Longrightarrow> \<forall>n. faults (w :: world) n = None \<Longrightarrow>
   (\<exists>x. fst (m w) = Inr x) \<and> (\<forall>n. faults (snd (m w)) n = None)"
  by (simp add: succeeds_def)

lemma succeeds_bind:
  assumes m: "succeeds m" and k: "\<And>x. succeeds (k x)"
  shows "succeeds (bind m k)"
proof (rule succeedsI)
  fix w :: world
  assume w: "\<forall>n. faults w n = None"
  from succeedsD [OF m w] obtain x where x: "fst (m w) = Inr x"
    and f: "\<forall>n. faults (snd (m w)) n = None" by blast
  from x have "bind m k w = k x (snd (m w))"
    by (simp add: bind_def split_beta)
  with succeedsD [OF k f, of x]
  show "(\<exists>x. fst (bind m k w) = Inr x) \<and> (\<forall>n. faults (snd (bind m k w)) n = None)"
    by simp
qed

lemma succeeds_step: "(\<And>w. faults (f w) = faults w) \<Longrightarrow> succeeds (step f)"
  by (simp add: succeeds_def step_def)

lemma succeeds_print: "succeeds (step (print s))"
  by (rule succeeds_step) simp

lemma succeeds_print_all: "succeeds (step (print_all ls))"
  by (rule succeeds_step) simp

lemma succeeds_emit: "succeeds (step (emit c))"
  by (rule succeeds_step) simp

lemma succeeds_ret: "succeeds (ret x)"
  by (simp add: succeeds_def ret_def)

lemma succeeds_read_sql: "succeeds (read_sql t sel)"
  by (simp add: succeeds_def read_sql_def attempt_def)

lemma succeeds_connect: "succeeds (connect h)"
  by (simp add: succeeds_def connect_def attempt_def)

lemma succeeds_session_run: "succeeds (session_run s)"
  by (simp add: succeeds_def session_run_def attempt_def)

lemma succeeds_with_handle: "succeeds body \<Longrightarrow> succeeds (with_handle h body)"
  by (simp add: succeeds_def with_handle_def split_beta)

lemma succeeds_run_cypher: "succeeds (run_cypher s)"
  unfolding run_cypher_def [abs_def]
  by (intro succeeds_with_handle succeeds_session_run)

lemma succeeds_for_each:
  assumes "\<And>x. succeeds (f x)"
  shows "succeeds (for_each f xs)"
proof (induction xs)
  case Nil
  show ?case by (simp add: succeeds_def)
next
  case (Cons x xs)
  have "for_each f (x # xs) = bind (f x) (\<lambda>u. for_each f xs)"
    by (rule ext) (simp add: bind_def split: prod.splits sum.splits)
  with succeeds_bind [OF assms [of x], of "\<lambda>u. for_each f xs"] Cons show ?case
    by simp
qed

lemma upt_30: "[0..<30] = 0 # [1..<30]"
  by (simp add: upt_conv_Cons)

lemma succeeds_wait_for_postgres: "succeeds (wait_for_postgres 30 2)"
  by (simp add: succeeds_def wait_for_postgres_def upt_30 attempt_def del: upt_Suc)

lemma succeeds_wait_for_neo4j: "succeeds (wait_for_neo4j 30 2)"
  by (simp add: succeeds_def wait_for_neo4j_def upt_30 attempt_def with_handle_def
      session_run_def del: upt_Suc)

lemma succeeds_run_statements: "succeeds (run_statements n iss)"
proof (induction iss)
  case Nil
  show ?case by (simp add: succeeds_def)
next
  case (Cons x iss)
  obtain i s where x: "x = (i, s)" by (cases x)
  show ?case
  proof (rule succeedsI)
    fix w :: world
    assume w: "\<forall>n. faults w n = None"
    let ?w = "print (''  + Executed statement '' @ show_nat i @ ''/'' @ show_nat n)
                ((tick (Run (Script s)) w)\<lparr>graph := exec_stmt (Script s) (graph w)\<rparr>)"
    from w have "\<forall>n. faults ?w n = None" by simp
    from succeedsD [OF Cons this] w
    show "(\<exists>u. fst (run_statements n (x # iss) w) = Inr u) \<and>
          (\<forall>k. faults (snd (run_statements n (x # iss) w)) k = None)"
      by (simp add: x session_run_ok)
  qed
qed

lemma succeeds_run_cypher_file: "succeeds run_cypher_file"
proof (rule succeedsI)
  fix w :: world
  assume w: "\<forall>n. faults w n = None"
  show "(\<exists>x. fst (run_cypher_file w) = Inr x) \<and> (\<forall>n. faults (snd (run_cypher_file w)) n = None)"
  proof (cases "schema_file w")
    case None
    with w show ?thesis by (simp add: run_cypher_file_def)
  next
    case (Some content)
    let ?ss = "statements_of content"
    let ?w = "print ''Executing Cypher file: queries.cypher'' w"
    from w have "\<forall>n. faults ?w n = None" by simp
    from succeedsD [OF succeeds_with_handle [OF succeeds_run_statements] this,
        of Session "length ?ss" "zip [1..<Suc (length ?ss)] ?ss"] Some
    show ?thesis by (simp add: run_cypher_file_def Let_def del: upt_Suc)
  qed
qed

lemma succeeds_etl_schema: "succeeds etl_schema"
proof (rule succeedsI)
  fix w :: world
  assume w: "\<forall>n. faults w n = None"
  have a: "succeeds (bind (step (print (nl @ ''[2/6] Setting up Neo4j schema...''))) (\<lambda>u. run_cypher_file))"
    by (intro succeeds_bind succeeds_print succeeds_run_cypher_file)
  from succeedsD [OF a w] w
  show "(\<exists>x. fst (etl_schema w) = Inr x) \<and> (\<forall>n. faults (snd (etl_schema w)) n = None)"
    by (simp add: etl_schema_def step_def)
qed

lemmas succeeds_intros =
  succeeds_bind succeeds_print succeeds_print_all succeeds_emit succeeds_ret succeeds_read_sql
  succeeds_connect succeeds_session_run succeeds_with_handle succeeds_run_cypher
  succeeds_for_each succeeds_wait_for_postgres succeeds_wait_for_neo4j succeeds_etl_schema





lemma succeeds_mig_session: "succeeds mig_session"
  unfolding mig_session_def mig_load_def mig_customers_def mig_categories_def mig_products_def
    mig_orders_def mig_order_items_def mig_events_def
  by (intro succeeds_intros)

lemma etl_okE:
  assumes "fst (etl w) = Inr u"
  obtains w0 w1 where "etl_connect w = (Inr (), w0)" "etl_try w0 = (Inr (), w1)"
    "snd (etl w) = etl_finally w1"
proof -
  from assms obtain w' where "etl w = (Inr u, w')" by (cases "etl w") simp
  then obtain w0 where c: "etl_connect w = (Inr (), w0)" and g: "etl_guarded w0 = (Inr u, w')"
    unfolding etl_def by (auto elim!: bind_okE)
  obtain r w1 where r: "etl_try w0 = (r, w1)" by (cases "etl_try w0")
  with g have "r = Inr ()" and "w' = etl_finally w1"
    by (cases r; simp add: etl_guarded_def)+
  with c r \<open>etl w = (Inr u, w')\<close> that show ?thesis by simp
qed

section \<open>Dangling references and the closing report\<close>

lemma eval_gate:
  "faults w (calls w) = None \<Longrightarrow>
   wait_for_postgres 30 2 w =
     (Inr (), print ''+ PostgreSQL is ready!'' (emit (Close ProbeConn)
                (tick (Connect ProbeConn) (print ''Waiting for PostgreSQL to be ready...'' w))))"
  "faults w (calls w) = None \<Longrightarrow>
   wait_for_neo4j 30 2 w =
     (Inr (), print ''+ Neo4j is ready!'' (emit (Close ProbeDriver) (emit (Close Session)
                (tick (Run Return1) (emit (Open Session) (emit (Open ProbeDriver)
                   (print ''Waiting for Neo4j to be ready...'' w)))))))"
  by (simp_all add: wait_for_postgres_def wait_for_neo4j_def upt_30 attempt_def with_handle_def
      session_run_def del: upt_Suc)

lemmas eval_etl =
  etl_def etl_connect_def etl_guarded_def etl_try_def etl_load_def etl_finally_def etl_schema_def
  etl_categories_def etl_products_def etl_customers_def etl_orders_def etl_order_items_def
  etl_events_def run_cypher_file_def run_cypher_def with_handle_def session_run_def
  attempt_def connect_def read_sql_def bind_def step_def ret_def
  stmt_category_def stmt_product_def stmt_customer_def stmt_order_def stmt_order_item_def
  stmt_event_def match_nodes_def create_node_def create_rel_def
  tiny_source_def dangling_source_def no_faults_def empty_graph_def empty_source_def
  tiny_world_def dangling_world_def empty_world_def eval_gate

lemmas eval_mig =
  migrate_to_neo4j_def mig_session_def mig_load_def mig_customers_def mig_categories_def mig_products_def
  mig_orders_def mig_order_items_def mig_events_def with_handle_def session_run_def
  attempt_def read_sql_def bind_def
  stmt_category_def stmt_product_def stmt_customer_def stmt_order_def stmt_order_item_def
  stmt_event_def match_nodes_def create_node_def create_rel_def
  tiny_source_def dangling_source_def no_faults_def empty_graph_def empty_source_def
  tiny_world_def dangling_world_def empty_world_def






text \<open>
  C3 as stated fails.  The runs on a shop with rows and on an empty shop both complete and
  return the same value, in \<^verbatim>\<open>etl()\<close> and in \<^verbatim>\<open>migrate_to_neo4j()\<close>, although the
  counts differ: the value returned holds no count.
\<close>

theorem no_summary_value_counterexample:
  "fst (etl tiny_world) = Inr () \<and> fst (etl empty_world) = Inr () \<and>
   fst (migrate_to_neo4j tiny_world) = fst (migrate_to_neo4j empty_world) \<and>
   length (categories (db tiny_world)) \<noteq> length (categories (db empty_world))"
  by (simp add: eval_etl eval_mig)

lemma etl_out_ok:
  assumes "fst (etl w) = Inr u"
  shows "\<exists>pre. out (snd (etl w)) = pre @ summary_of (db w) @ [''Database connections closed.'' @ nl]"
proof -
  from assms obtain w0 w1 where c: "etl_connect w = (Inr (), w0)"
    and t: "etl_try w0 = (Inr (), w1)" and f: "snd (etl w) = etl_finally w1"
    by (rule etl_okE)
  from etl_connect_env [of w] c have "db w0 = db w" by (simp add: same_env_def)
  with etl_try_ok(3) [OF t] f show ?thesis
    by (auto simp: etl_finally_def)
qed

text \<open>
  C3, amended.  A run of \<^verbatim>\<open>etl()\<close> that completes returns no value; the last lines it
  prints are the closing report with the number of rows read from each of the six
  tables, followed by the line on the closed connections.  A run of
  \<^verbatim>\<open>migrate_to_neo4j()\<close> that completes returns the fixed status and message.
\<close>

theorem summary_is_printed:
  "(fst (etl w) = Inr () \<longrightarrow>
      (\<exists>pre. out (snd (etl w)) =
         pre @ summary_of (db w) @ [''Database connections closed.'' @ nl])) \<and>
   (fst (migrate_to_neo4j w) = Inr v \<longrightarrow>
      v = [(''status'', ''success''), (''message'', ''Data migrated to Neo4j'')])"
  using etl_out_ok [of w "()"]
  by (auto simp: migrate_to_neo4j_def split: prod.splits sum.splits)

text \<open>The theorem on the small shop.\<close>

theorem summary_is_printed_witness:
  "fst (etl tiny_world) = Inr () \<and>
   (\<exists>pre. out (snd (etl tiny_world)) =
      pre @ summary_of tiny_source @ [''Database connections closed.'' @ nl]) \<and>
   summary_of tiny_source ! 4 = ''  * 1 categories'' \<and>
   summary_of tiny_source ! 9 = ''  * 0 customer events'' \<and>
   fst (migrate_to_neo4j tiny_world) =
     Inr [(''status'', ''success''), (''message'', ''Data migrated to Neo4j'')]"
proof -
  have 1: "fst (etl tiny_world) = Inr ()"
    by (simp add: eval_etl)
  have 2: "fst (migrate_to_neo4j tiny_world) =
             Inr [(''status'', ''success''), (''message'', ''Data migrated to Neo4j'')]"
    by (simp add: eval_mig)
  have 3: "db tiny_world = tiny_source"
    by (simp add: tiny_world_def)
  have 4: "summary_of tiny_source ! 4 = ''  * 1 categories''"
    "summary_of tiny_source ! 9 = ''  * 0 customer events''"
    by (simp_all add: summary_of_def summary_lines_def tiny_source_def show_nat_digit digit_def)
  from summary_is_printed [of tiny_world] 1 2 3 4 show ?thesis
    by simp
qed

section \<open>The order of the stages\<close>

lemma tables_of_simps [simp]:
  "tables_of [] = []"
  "tables_of (a @ b) = tables_of a @ tables_of b"
  "tables_of ((c, r) # es) = (case call_table c of None \<Rightarrow> [] | Some t \<Rightarrow> [t]) @ tables_of es"
  by (simp_all add: tables_of_def map_filter_def split: option.splits)








lemma emits_weaken:
  assumes "emits m P" and "\<And>a. P a \<Longrightarrow> Q a"
  shows "emits m Q"
proof (rule emitsI)
  fix w
  from emitsD [OF assms(1), of w] obtain es where "trace (snd (m w)) = trace w @ es" "P es"
    by blast
  with assms(2) show "\<exists>es. trace (snd (m w)) = trace w @ es \<and> Q es" by blast
qed


lemma ordered_from_weaken:
  "emits m (ordered_from rank n) \<Longrightarrow> k \<le> n \<Longrightarrow> emits m (ordered_from rank k)"
  by (erule emits_weaken) (fastforce simp: ordered_from_def)














lemma migration_calls_simps [simp]:
  "migration_calls [] = []"
  "migration_calls (a @ b) = migration_calls a @ migration_calls b"
  "migration_calls ((c, r) # es) = (if call_table c = None then [] else [c]) @ migration_calls es"
  by (simp_all add: migration_calls_def)


















end
